theory Spec2Isabelle
  imports
    Complex_Main
    "HOL-Library.Sublist"
    "HOL-Library.List_Lexorder"
    "HOL-Library.Char_ord"
begin

section \<open>Activity tracker (server.py, lines 19--46)\<close>

text \<open>
  The global \<open>_active\<close> is a Python integer guarded by \<open>active_lock\<close>; each of the
  three functions runs under the lock, so each is one atomic step on the counter.
  The counter is passed explicitly: \<open>inc_active\<close> and \<open>dec_active\<close> return the new
  value of \<open>_active\<close> (which is also what the Python functions return), and
  \<open>keepalive_timeout\<close> takes the value it reads.
\<close>

definition inc_active :: "int \<Rightarrow> int" where
  "inc_active a = a + 1"

definition dec_active :: "int \<Rightarrow> int" where
  "dec_active a = max 0 (a - 1)"

definition keepalive_timeout :: "int \<Rightarrow> int" where
  "keepalive_timeout a =
     (let n = a in
      if n < 5 then 10
      else if n < 20 then 5
      else 2)"

text \<open>
  Counter events of concurrently running handlers.  Handler number \<open>i\<close> calls
  \<open>inc_active\<close> when it starts (line 183) and \<open>dec_active\<close> in its \<open>finally\<close> block
  (line 242).  Because both run under the lock, an arbitrary interleaving of handlers
  is a sequence of such events.
\<close>

datatype counter_event = Start nat | End nat

fun apply_event :: "int \<Rightarrow> counter_event \<Rightarrow> int" where
  "apply_event a (Start i) = inc_active a"
| "apply_event a (End i) = dec_active a"

definition run_events :: "int \<Rightarrow> counter_event list \<Rightarrow> int" where
  "run_events a es = foldl apply_event a es"

text \<open>
  \<open>handler_order seen es\<close>: continuing after the events \<open>seen\<close>, every handler starts
  at most once, ends at most once, and ends only after it has started.
\<close>

fun handler_order :: "counter_event list \<Rightarrow> counter_event list \<Rightarrow> bool" where
  "handler_order seen [] = True"
| "handler_order seen (e # es) =
     (e \<notin> set seen
      \<and> (case e of Start i \<Rightarrow> True | End i \<Rightarrow> Start i \<in> set seen)
      \<and> handler_order (e # seen) es)"

fun started :: "counter_event list \<Rightarrow> nat list" where
  "started [] = []"
| "started (Start i # es) = i # started es"
| "started (End i # es) = started es"

definition running :: "counter_event list \<Rightarrow> nat list" where
  "running es = filter (\<lambda>i. End i \<notin> set es) (started es)"

text \<open>The same handlers as a set, for a set of events: started and not ended.\<close>

definition live :: "counter_event set \<Rightarrow> nat set" where
  "live E = {i. Start i \<in> E \<and> End i \<notin> E}"

section \<open>Python strings and bytes\<close>

text \<open>
  A Python \<open>bytes\<close> value is a \<open>string\<close>, a list of 8-bit characters.  The \<open>str\<close>
  that \<open>parse_request\<close> decodes from the received bytes is a \<open>utext\<close>, the list of
  its Unicode code points, so that every character Python can meet there has its
  place: the parser splits, strips and compares on code points.  The \<open>str\<close> values
  that leave the parser (method, URI, version, the two headers, and the messages of
  exceptions) are kept as the bytes that \<open>.encode()\<close> makes of them in \<open>respond\<close>:
  UTF-8 is one-to-one, keeps the order, maps a concatenation to the concatenation
  and every ASCII character to itself, so the comparisons, the path operations and
  the f-strings of the rest of the program read the same on the bytes.  Decoding,
  encoding, lower-casing and percent-decoding are library functions and
  parameters of the environment (see \<open>env\<close> below).
\<close>

type_synonym utext = "int list"

text \<open>A string literal of the source, as text: its characters are ASCII.\<close>

definition text_of :: "string \<Rightarrow> utext" where
  "text_of s = map of_char s"

abbreviation CR :: char where "CR \<equiv> CHR 0x0D"
abbreviation LF :: char where "LF \<equiv> CHR 0x0A"
abbreviation CRLF :: string where "CRLF \<equiv> [CR, LF]"

fun cons_first :: "'a \<Rightarrow> 'a list list \<Rightarrow> 'a list list" where
  "cons_first c [] = [[c]]"
| "cons_first c (w # ws) = (c # w) # ws"

text \<open>
  \<open>s.split("\r\n")\<close>: left to right, and \<open>"".split("\r\n") = [""]\<close>; first on bytes
  (used to read a response), then on text, where carriage return and line feed are
  the code points 13 and 10.
\<close>

fun split_crlf :: "string \<Rightarrow> string list" where
  "split_crlf [] = [[]]"
| "split_crlf [c] = [[c]]"
| "split_crlf (c # d # cs) =
     (if c = CR \<and> d = LF then [] # split_crlf cs
      else cons_first c (split_crlf (d # cs)))"

fun text_split_crlf :: "utext \<Rightarrow> utext list" where
  "text_split_crlf [] = [[]]"
| "text_split_crlf [c] = [[c]]"
| "text_split_crlf (c # d # cs) =
     (if c = 13 \<and> d = 10 then [] # text_split_crlf cs
      else cons_first c (text_split_crlf (d # cs)))"

text \<open>\<open>s.split("/")\<close>, as \<open>posixpath\<close> uses it.\<close>

fun split_char :: "char \<Rightarrow> string \<Rightarrow> string list" where
  "split_char s [] = [[]]"
| "split_char s (c # cs) =
     (if c = s then [] # split_char s cs else cons_first c (split_char s cs))"

text \<open>\<open>sep.join(xs)\<close>.\<close>

fun join_sep :: "string \<Rightarrow> string list \<Rightarrow> string" where
  "join_sep s [] = []"
| "join_sep s [x] = x"
| "join_sep s (x # y # ys) = x @ s @ join_sep s (y # ys)"

text \<open>
  \<open>str.isspace\<close>, which \<open>str.split()\<close> and \<open>str.strip()\<close> use: the code points
  U+0009--U+000D, U+001C--U+001F, U+0020, U+0085, U+00A0, U+1680, U+2000--U+200A,
  U+2028, U+2029, U+202F, U+205F and U+3000.
\<close>

definition py_isspace :: "int \<Rightarrow> bool" where
  "py_isspace c \<longleftrightarrow>
     (0x09 \<le> c \<and> c \<le> 0x0D) \<or> (0x1C \<le> c \<and> c \<le> 0x20) \<or> c = 0x85 \<or> c = 0xA0
     \<or> c = 0x1680 \<or> (0x2000 \<le> c \<and> c \<le> 0x200A) \<or> c = 0x2028 \<or> c = 0x2029
     \<or> c = 0x202F \<or> c = 0x205F \<or> c = 0x3000"

text \<open>\<open>s.split()\<close> with no argument: the maximal runs of non-whitespace.\<close>

fun split_ws :: "utext \<Rightarrow> utext \<Rightarrow> utext list" where
  "split_ws w [] = (if w = [] then [] else [w])"
| "split_ws w (c # cs) =
     (if py_isspace c then (if w = [] then [] else [w]) @ split_ws [] cs
      else split_ws (w @ [c]) cs)"

definition py_split :: "utext \<Rightarrow> utext list" where
  "py_split s = split_ws [] s"

definition py_strip :: "utext \<Rightarrow> utext" where
  "py_strip s = rev (dropWhile py_isspace (rev (dropWhile py_isspace s)))"

text \<open>\<open>s.partition(sep)\<close> for a one-character separator.\<close>

definition py_partition :: "int \<Rightarrow> utext \<Rightarrow> utext \<times> utext \<times> utext" where
  "py_partition sep s =
     (if sep \<in> set s
      then (takeWhile (\<lambda>c. c \<noteq> sep) s, [sep], tl (dropWhile (\<lambda>c. c \<noteq> sep) s))
      else (s, [], []))"

text \<open>Python's truth test on a \<open>str\<close> that may be \<open>None\<close>, on text.\<close>

definition text_truthy :: "utext option \<Rightarrow> bool" where
  "text_truthy v = (case v of None \<Rightarrow> False | Some s \<Rightarrow> s \<noteq> [])"

text \<open>\<open>sub in s\<close> on byte strings.\<close>

fun contains :: "string \<Rightarrow> string \<Rightarrow> bool" where
  "contains sub [] = (sub = [])"
| "contains sub (c # cs) = (prefix sub (c # cs) \<or> contains sub cs)"

definition startswith :: "string \<Rightarrow> string \<Rightarrow> bool" where
  "startswith s p = prefix p s"

definition endswith :: "string \<Rightarrow> string \<Rightarrow> bool" where
  "endswith s p = suffix p s"

text \<open>\<open>str(n)\<close> for an integer, as the f-strings of \<open>respond\<close> format it.\<close>

definition digit_char :: "nat \<Rightarrow> char" where
  "digit_char d =
     (if d = 0 then CHR ''0'' else if d = 1 then CHR ''1'' else if d = 2 then CHR ''2''
      else if d = 3 then CHR ''3'' else if d = 4 then CHR ''4'' else if d = 5 then CHR ''5''
      else if d = 6 then CHR ''6'' else if d = 7 then CHR ''7'' else if d = 8 then CHR ''8''
      else CHR ''9'')"

function str_nat :: "nat \<Rightarrow> string" where
  "str_nat n =
     (if n < 10 then [digit_char n] else str_nat (n div 10) @ [digit_char (n mod 10)])"
  by pat_completeness auto
termination
  by (relation "measure id") auto

declare str_nat.simps [simp del]

definition str_int :: "int \<Rightarrow> string" where
  "str_int i = (if i < 0 then ''-'' @ str_nat (nat (- i)) else str_nat (nat i))"

text \<open>
  A value that may be \<open>None\<close>: \<open>truthy\<close> is Python's truth test on it (\<open>None\<close> and
  the empty string are false), \<open>fmt_opt\<close> is how an f-string prints it.
\<close>

definition truthy :: "string option \<Rightarrow> bool" where
  "truthy v = (case v of None \<Rightarrow> False | Some s \<Rightarrow> s \<noteq> [])"

definition fmt_opt :: "string option \<Rightarrow> string" where
  "fmt_opt v = (case v of None \<Rightarrow> ''None'' | Some s \<Rightarrow> s)"

section \<open>Errors, statuses and the environment\<close>

text \<open>
  The exceptions the program raises or lets through.  \<open>IndexError\<close> is what
  \<open>s2[i]\<close> in \<open>os.path.commonpath\<close> would raise; no \<open>except\<close> clause of the handler
  catches it.
\<close>

datatype error =
    ValueError string
  | PermissionError string
  | FileNotFoundError string
  | IndexError string

text \<open>The members of \<open>http.HTTPStatus\<close> that the program uses.\<close>

datatype http_status = OK | NO_CONTENT | BAD_REQUEST | FORBIDDEN | NOT_FOUND

fun status_value :: "http_status \<Rightarrow> int" where
  "status_value OK = 200"
| "status_value NO_CONTENT = 204"
| "status_value BAD_REQUEST = 400"
| "status_value FORBIDDEN = 403"
| "status_value NOT_FOUND = 404"

fun status_phrase :: "http_status \<Rightarrow> string" where
  "status_phrase OK = ''OK''"
| "status_phrase NO_CONTENT = ''No Content''"
| "status_phrase BAD_REQUEST = ''Bad Request''"
| "status_phrase FORBIDDEN = ''Forbidden''"
| "status_phrase NOT_FOUND = ''Not Found''"

text \<open>The dictionary that \<open>parse_request\<close> returns, its \<open>str\<close> values encoded.\<close>

record request =
  req_method :: string
  req_uri :: string
  req_version :: string
  req_host :: "string option"
  req_connection :: "string option"

text \<open>
  What the program takes from outside itself: the library functions
  \<open>bytes.decode("utf-8", errors="ignore")\<close>, \<open>str.encode()\<close>, \<open>str.lower()\<close>,
  \<open>urllib.parse.unquote\<close> (with the encoding of its result),
  \<open>mimetypes.guess_type\<close> and \<open>email.utils.formatdate\<close> (the clock, indexed by the
  number of the request on the connection), the working directory, the global
  \<open>ROOT_DIR\<close>, and the file system as \<open>os.path.exists\<close>, \<open>os.path.isfile\<close>,
  \<open>os.access(_, R_OK)\<close> and the bytes that \<open>open(file, "rb").read()\<close> returns.
\<close>

record env =
  decode_utf8 :: "string \<Rightarrow> utext"
  encode_utf8 :: "utext \<Rightarrow> string"
  str_lower :: "utext \<Rightarrow> utext"
  unquote :: "utext \<Rightarrow> string"
  guess_type :: "string \<Rightarrow> string option"
  formatdate :: "nat \<Rightarrow> string"
  getcwd :: string
  root_dir :: string
  path_exists :: "string \<Rightarrow> bool"
  path_isfile :: "string \<Rightarrow> bool"
  access_read :: "string \<Rightarrow> bool"
  read_file :: "string \<Rightarrow> string"

text \<open>
  What one handler observes while it runs: the value of \<open>_active\<close>, the answers of
  the successive calls of \<open>stop_event.is_set()\<close>, the results of the successive
  calls of \<open>recv\<close> (\<open>Data []\<close> is the empty read of a closed peer, \<open>Timeout\<close> the
  \<open>socket.timeout\<close> exception) and the answers of the successive calls of \<open>select\<close>
  (whether the socket is readable).  A run that needs an answer the lists no longer
  hold has not returned: its value is \<open>None\<close>.
\<close>

datatype recv_result = Data string | Timeout

record world =
  active :: int
  stops :: "bool list"
  recvs :: "recv_result list"
  selects :: "bool list"

section \<open>Request parser (server.py, lines 66--131)\<close>

text \<open>
  The \<open>while True\<close> loop of lines 68--81.  The result is \<open>Inr None\<close> for
  \<open>return None\<close>, \<open>Inl\<close> for the raised \<open>ValueError\<close>, and \<open>Inr (Some request)\<close> when
  the loop is left by \<open>break\<close>.
\<close>

fun recv_loop ::
  "bool list \<Rightarrow> recv_result list \<Rightarrow> string
     \<Rightarrow> ((error + string option) \<times> bool list \<times> recv_result list) option" where
  "recv_loop [] rs request = None"
| "recv_loop (stop # ss) rs request =
     (if stop then Some (Inr None, ss, rs)
      else (case rs of
              [] \<Rightarrow> None
            | Timeout # rs' \<Rightarrow> recv_loop ss rs' request
            | Data chunk # rs' \<Rightarrow>
                if chunk = [] then Some (Inl (ValueError ''connection disrupted''), ss, rs')
                else if contains (CRLF @ CRLF) (request @ chunk)
                  then Some (Inr (Some (request @ chunk)), ss, rs')
                else recv_loop ss rs' (request @ chunk)))"

text \<open>
  The \<open>for header in lines[1:]\<close> loop of lines 103--117.  The colon is the code
  point 58.
\<close>

fun scan_headers ::
  "env \<Rightarrow> utext option \<Rightarrow> utext option \<Rightarrow> utext list \<Rightarrow> utext option \<times> utext option" where
  "scan_headers env host connection [] = (host, connection)"
| "scan_headers env host connection (header # rest) =
     (if py_strip header = [] then (host, connection)
      else (case py_partition 58 header of
              (key, sep, val) \<Rightarrow>
                if sep = [] then scan_headers env host connection rest
                else (let key = str_lower env (py_strip key);
                          val = py_strip val
                      in if key = text_of ''host''
                           then scan_headers env (Some val) connection rest
                         else if key = text_of ''connection''
                           then scan_headers env host (Some val) rest
                         else scan_headers env host connection rest)))"

text \<open>
  Lines 83--131: from the received bytes to the request or the \<open>ValueError\<close>.  The
  tests are made on the text; the dictionary and the message of the exception hold
  the encoded values.
\<close>

definition parse_text :: "env \<Rightarrow> string \<Rightarrow> error + request" where
  "parse_text env request =
     (let lines = text_split_crlf (decode_utf8 env request) in
      if length lines < 1 then Inl (ValueError ''empty request'')
      else (let req_line = py_split (hd lines) in
        (case req_line of
           [method, uri, ver] \<Rightarrow>
             if method \<noteq> text_of ''GET'' \<and> method \<noteq> text_of ''HEAD''
               then Inl (ValueError (encode_utf8 env method @ '' is not supported''))
             else (case scan_headers env None None (tl lines) of
                     (host, connection) \<Rightarrow>
                       if ver = text_of ''HTTP/1.1'' \<and> \<not> text_truthy host
                         then Inl (ValueError ''HTTP/1.1 with missing Host header'')
                       else Inr \<lparr> req_method = encode_utf8 env method,
                                  req_uri = unquote env uri,
                                  req_version = encode_utf8 env ver,
                                  req_host = map_option (encode_utf8 env) host,
                                  req_connection = map_option (encode_utf8 env) connection \<rparr>)
         | _ \<Rightarrow> Inl (ValueError ''invalid request line''))))"

datatype parse_result = Cancelled | Raised error | Parsed request

definition parse_request :: "env \<Rightarrow> world \<Rightarrow> (parse_result \<times> world) option" where
  "parse_request env w =
     (case recv_loop (stops w) (recvs w) [] of
        None \<Rightarrow> None
      | Some (r, ss, rs) \<Rightarrow>
          Some (case r of
                  Inl e \<Rightarrow> Raised e
                | Inr None \<Rightarrow> Cancelled
                | Inr (Some request) \<Rightarrow>
                    (case parse_text env request of Inl e \<Rightarrow> Raised e | Inr q \<Rightarrow> Parsed q),
                w\<lparr>stops := ss, recvs := rs\<rparr>))"

section \<open>Path resolver (server.py, lines 134--152)\<close>

text \<open>
  \<open>os.path.join\<close>, \<open>os.path.normpath\<close>, \<open>os.path.abspath\<close> and \<open>os.path.commonpath\<close>
  as \<open>posixpath\<close> defines them; \<open>commonpath\<close> is given for the two-element list
  that \<open>get_file\<close> passes.  None of them looks at the file system: \<open>abspath\<close>
  removes \<open>.\<close> and \<open>..\<close> from the text of the path and follows no symbolic link.
\<close>

definition path_join :: "string \<Rightarrow> string \<Rightarrow> string" where
  "path_join a b =
     (if startswith b ''/'' then b
      else if a = [] \<or> endswith a ''/'' then a @ b
      else a @ ''/'' @ b)"

definition normpath_step :: "nat \<Rightarrow> string list \<Rightarrow> string \<Rightarrow> string list" where
  "normpath_step initial_slashes new_comps cmp =
     (if cmp = [] \<or> cmp = ''.'' then new_comps
      else if cmp \<noteq> ''..'' \<or> (initial_slashes = 0 \<and> new_comps = [])
              \<or> (new_comps \<noteq> [] \<and> last new_comps = ''..'')
        then new_comps @ [cmp]
      else if new_comps \<noteq> [] then butlast new_comps
      else new_comps)"

definition normpath :: "string \<Rightarrow> string" where
  "normpath path =
     (if path = [] then ''.''
      else (let initial_slashes =
                  (if startswith path ''/'' then
                     (if startswith path ''//'' \<and> \<not> startswith path ''///'' then 2 else 1)
                   else 0);
                comps = split_char (CHR ''/'') path;
                new_comps = foldl (normpath_step initial_slashes) [] comps;
                path = join_sep ''/'' new_comps;
                path = (if initial_slashes \<noteq> 0
                        then replicate initial_slashes (CHR ''/'') @ path else path)
            in if path = [] then ''.'' else path))"

definition abspath :: "string \<Rightarrow> string \<Rightarrow> string" where
  "abspath cwd path =
     normpath (if \<not> startswith path ''/'' then path_join cwd path else path)"

text \<open>
  The loop \<open>for i, c in enumerate(s1): if c != s2[i]: common = s1[:i]; break\<close>;
  \<open>None\<close> is the \<open>IndexError\<close> of \<open>s2[i]\<close>.
\<close>

fun common_prefix :: "string list \<Rightarrow> string list \<Rightarrow> string list option" where
  "common_prefix [] s2 = Some []"
| "common_prefix (c # s1) [] = None"
| "common_prefix (c # s1) (d # s2) =
     (if c \<noteq> d then Some [] else map_option ((#) c) (common_prefix s1 s2))"

text \<open>\<open>[c for c in path.split("/") if c and c != "."]\<close>.\<close>

definition path_parts :: "string \<Rightarrow> string list" where
  "path_parts p = filter (\<lambda>c. c \<noteq> [] \<and> c \<noteq> ''.'') (split_char (CHR ''/'') p)"

definition commonpath :: "string \<Rightarrow> string \<Rightarrow> error + string" where
  "commonpath a b =
     (if (take 1 a = ''/'') \<noteq> (take 1 b = ''/'')
        then Inl (ValueError ''Can't mix absolute and relative paths'')
      else (let isabs = (take 1 a = ''/'');
                s1 = min (path_parts a) (path_parts b);
                s2 = max (path_parts a) (path_parts b)
            in (case common_prefix s1 s2 of
                  None \<Rightarrow> Inl (IndexError ''list index out of range'')
                | Some common \<Rightarrow>
                    Inr ((if isabs then ''/'' else []) @ join_sep ''/'' common))))"

text \<open>The candidate path of line 138, for the URI after the rewriting of line 136.\<close>

definition candidate :: "env \<Rightarrow> string \<Rightarrow> string" where
  "candidate env uri =
     abspath (getcwd env) (path_join (root_dir env) (dropWhile (\<lambda>c. c = CHR ''/'') uri))"

definition get_file :: "env \<Rightarrow> string \<Rightarrow> error + string" where
  "get_file env uri0 =
     (let uri = (if uri0 = ''/'' then ''/index.html'' else uri0);
          file = candidate env uri
      in (case commonpath (root_dir env) file of
            Inl e \<Rightarrow> Inl e
          | Inr cp \<Rightarrow>
              if cp \<noteq> root_dir env
                then Inl (PermissionError ''Forbidden: out of bounds traversal'')
              else if \<not> path_exists env file \<or> \<not> path_isfile env file
                then Inl (FileNotFoundError (uri @ '' not found in directory''))
              else if \<not> access_read env file
                then Inl (PermissionError ''Permission denied'')
              else Inr file))"

section \<open>Response builder (server.py, lines 155--179)\<close>

definition respond ::
  "http_status \<Rightarrow> string \<Rightarrow> string \<Rightarrow> string \<Rightarrow> string \<Rightarrow> string option \<Rightarrow> string" where
  "respond status date version body content_type connection =
     (let response = version @ '' '' @ str_int (status_value status) @ '' ''
                       @ status_phrase status @ CRLF;
          response = response @ date;
          response = response @ ''Content-Type: '' @ content_type @ CRLF;
          response = (if body \<noteq> [] then
                        response @ ''Content-Length: '' @ str_nat (length body) @ CRLF
                      else response);
          response = (if version = ''HTTP/1.1'' \<and> truthy connection then
                        response @ ''Connection: '' @ fmt_opt connection @ CRLF @ CRLF
                      else if status_value status = 400 then
                        response @ ''Connection: close'' @ CRLF @ CRLF
                      else response @ CRLF);
          response = (if status \<noteq> NO_CONTENT then response @ body else response)
      in response)"

section \<open>Connection handler (server.py, lines 182--243)\<close>

text \<open>
  The five variables that the \<open>try\<close> statement of lines 196--224 leaves behind for
  the rest of the iteration.
\<close>

record cycle =
  c_version :: string
  c_connection :: "string option"
  c_body :: string
  c_content_type :: string
  c_status :: http_status

datatype try_result = Break | Completed cycle | Uncaught error

text \<open>
  The three \<open>except\<close> clauses; \<open>ver\<close> and \<open>conn\<close> are the values that \<open>version\<close> and
  \<open>connection\<close> hold when the exception arrives.
\<close>

definition on_error :: "string \<Rightarrow> string option \<Rightarrow> error \<Rightarrow> try_result" where
  "on_error ver conn e =
     (case e of
        ValueError m \<Rightarrow>
          Completed \<lparr> c_version = ver, c_connection = conn,
                      c_body = ''<h1>400 Bad Request</h1>'', c_content_type = ''text/html'',
                      c_status = BAD_REQUEST \<rparr>
      | PermissionError m \<Rightarrow>
          Completed \<lparr> c_version = ver, c_connection = conn,
                      c_body = ''<h1>403 Forbidden</h1>'', c_content_type = ''text/html'',
                      c_status = FORBIDDEN \<rparr>
      | FileNotFoundError m \<Rightarrow>
          Completed \<lparr> c_version = ver, c_connection = conn,
                      c_body = ''<h1>404 Not Found</h1>'', c_content_type = ''text/html'',
                      c_status = NOT_FOUND \<rparr>
      | IndexError m \<Rightarrow> Uncaught e)"

text \<open>Lines 200--208, for a request that was parsed.\<close>

definition serve :: "env \<Rightarrow> request \<Rightarrow> try_result" where
  "serve env q =
     (case get_file env (req_uri q) of
        Inl e \<Rightarrow> on_error (req_version q) (req_connection q) e
      | Inr file \<Rightarrow>
          Completed \<lparr> c_version = req_version q, c_connection = req_connection q,
                      c_body = (if req_method q = ''GET'' then read_file env file else []),
                      c_content_type =
                        (if truthy (guess_type env file) then fmt_opt (guess_type env file)
                         else ''application/octet-stream''),
                      c_status = OK \<rparr>)"

definition handler_try :: "env \<Rightarrow> world \<Rightarrow> (try_result \<times> world) option" where
  "handler_try env w =
     (case parse_request env w of
        None \<Rightarrow> None
      | Some (Cancelled, w') \<Rightarrow> Some (Break, w')
      | Some (Raised e, w') \<Rightarrow> Some (on_error ''HTTP/1.0'' None e, w')
      | Some (Parsed q, w') \<Rightarrow> Some (serve env q, w'))"

text \<open>
  What the handler does, in the order in which it does it: the call of
  \<open>inc_active\<close>, \<open>sendall\<close>, the \<open>select\<close> call with its timeout, an exception that
  leaves the loop, the call of \<open>dec_active\<close>, and \<open>close\<close>.
\<close>

datatype action = IncActive | Send string | Select real | Propagate error | DecActive | Close

datatype iteration = Exit "action list" world | Again "action list" world

definition response_of :: "env \<Rightarrow> nat \<Rightarrow> cycle \<Rightarrow> string" where
  "response_of env k c =
     respond (c_status c) (''Date: '' @ formatdate env k @ CRLF) (c_version c) (c_body c)
       (c_content_type c) (c_connection c)"

text \<open>
  One iteration of the \<open>while True\<close> loop of lines 186--240; \<open>k\<close> counts the
  iterations.  \<open>Exit\<close> is every way out of the loop, \<open>Again\<close> the way back to its top.
\<close>

definition handler_iter :: "env \<Rightarrow> nat \<Rightarrow> world \<Rightarrow> iteration option" where
  "handler_iter env k w =
     (case stops w of
        [] \<Rightarrow> None
      | stop # ss \<Rightarrow>
          if stop then Some (Exit [] (w\<lparr>stops := ss\<rparr>))
          else (case handler_try env (w\<lparr>stops := ss\<rparr>) of
                  None \<Rightarrow> None
                | Some (Break, w1) \<Rightarrow> Some (Exit [] w1)
                | Some (Uncaught e, w1) \<Rightarrow> Some (Exit [Propagate e] w1)
                | Some (Completed c, w1) \<Rightarrow>
                    (let sent = [Send (response_of env k c)] in
                     if c_version c = ''HTTP/1.0'' \<or> c_connection c = Some ''close''
                        \<or> status_value (c_status c) \<ge> 400
                       then Some (Exit sent w1)
                     else (let tout = real_of_int (keepalive_timeout (active w1)) in
                       (case stops w1 of
                          [] \<Rightarrow> None
                        | stop2 # ss2 \<Rightarrow>
                            (let tout = (if stop2 then 0.1 else tout) in
                             (case selects w1 of
                                [] \<Rightarrow> None
                              | ready # rest \<Rightarrow>
                                  (let w2 = w1\<lparr>stops := ss2, selects := rest\<rparr> in
                                   if \<not> ready then Some (Exit (sent @ [Select tout]) w2)
                                   else Some (Again (sent @ [Select tout]) w2)))))))))"

text \<open>Every iteration asks for the stop flag at least once, so the loop is well founded.\<close>

lemma recv_loop_stops:
  "recv_loop ss rs buf = Some (r, ss', rs') \<Longrightarrow> length ss' < length ss"
proof (induction ss rs buf rule: recv_loop.induct)
  case (1 rs request)
  then show ?case by simp
next
  case (2 stop ss rs request)
  show ?case
  proof (cases stop)
    case True
    with 2 show ?thesis by auto
  next
    case False
    with 2 show ?thesis
      by (cases rs; cases "hd rs") (fastforce split: if_splits)+
  qed
qed

lemma parse_request_stops:
  "parse_request env w = Some (r, w') \<Longrightarrow> length (stops w') < length (stops w)"
  by (auto simp: parse_request_def split: option.splits dest: recv_loop_stops)

lemma handler_try_stops:
  "handler_try env w = Some (r, w') \<Longrightarrow> length (stops w') < length (stops w)"
  by (auto simp: handler_try_def split: option.splits parse_result.splits
           dest: parse_request_stops)

lemma handler_iter_Again:
  "handler_iter env k w = Some (Again tr w') \<Longrightarrow> length (stops w') < length (stops w)"
  by (auto simp: handler_iter_def Let_def
           split: list.splits if_splits option.splits try_result.splits
           dest!: handler_try_stops)

function handler_loop :: "env \<Rightarrow> nat \<Rightarrow> world \<Rightarrow> (action list \<times> world) option" where
  "handler_loop env k w =
     (case handler_iter env k w of
        None \<Rightarrow> None
      | Some (Exit tr w') \<Rightarrow> Some (tr, w')
      | Some (Again tr w') \<Rightarrow>
          (case handler_loop env (Suc k) w' of
             None \<Rightarrow> None
           | Some (tr', w'') \<Rightarrow> Some (tr @ tr', w'')))"
  by pat_completeness auto
termination
  by (relation "measure (\<lambda>(env, k, w). length (stops w))")
     (auto dest: handler_iter_Again)

declare handler_loop.simps [simp del]

text \<open>
  The whole handler: \<open>inc_active\<close>, the loop, and the \<open>finally\<close> block with
  \<open>dec_active\<close> and \<open>close\<close>.  \<open>settimeout(0.5)\<close> only makes \<open>recv\<close> time out, which
  the \<open>Timeout\<close> results stand for.
\<close>

definition handler :: "env \<Rightarrow> world \<Rightarrow> (action list \<times> world) option" where
  "handler env w =
     (case handler_loop env 0 (w\<lparr>active := inc_active (active w)\<rparr>) of
        None \<Rightarrow> None
      | Some (tr, w') \<Rightarrow>
          Some (IncActive # tr @ [DecActive, Close],
                w'\<lparr>active := dec_active (active w')\<rparr>))"

section \<open>Notions used to state the properties\<close>

text \<open>
  The lines of a response up to the first empty line are its status line and its
  headers; the name of a header is the text before its colon.
\<close>

definition response_head :: "string \<Rightarrow> string list" where
  "response_head resp = takeWhile (\<lambda>l. l \<noteq> []) (split_crlf resp)"

definition header_name :: "string \<Rightarrow> string" where
  "header_name l = takeWhile (\<lambda>c. c \<noteq> CHR '':'') l"

definition headers_named :: "string \<Rightarrow> string \<Rightarrow> string list" where
  "headers_named n resp = filter (\<lambda>l. header_name l = n) (tl (response_head resp))"

text \<open>
  A path lies inside a directory when the directory's components are the first
  components of the path.
\<close>

definition inside :: "string \<Rightarrow> string \<Rightarrow> bool" where
  "inside dir p = prefix (path_parts dir) (path_parts p)"

text \<open>The lines that \<open>respond\<close> writes before the empty line, part by part.\<close>

definition status_line :: "string \<Rightarrow> http_status \<Rightarrow> string" where
  "status_line version status =
     version @ '' '' @ str_int (status_value status) @ '' '' @ status_phrase status"

definition content_length_lines :: "string \<Rightarrow> string list" where
  "content_length_lines body =
     (if body \<noteq> [] then [''Content-Length: '' @ str_nat (length body)] else [])"

definition connection_lines :: "http_status \<Rightarrow> string \<Rightarrow> string option \<Rightarrow> string list" where
  "connection_lines status version connection =
     (if version = ''HTTP/1.1'' \<and> truthy connection then [''Connection: '' @ fmt_opt connection]
      else if status_value status = 400 then [''Connection: close'']
      else [])"

text \<open>
  The variables of an iteration whose \<open>parse_request\<close> raised: \<open>version\<close> and
  \<open>connection\<close> still hold the values of lines 190--191, the rest is set by the
  \<open>except ValueError\<close> clause.
\<close>

definition bad_request :: cycle where
  "bad_request =
     \<lparr> c_version = ''HTTP/1.0'', c_connection = None,
       c_body = ''<h1>400 Bad Request</h1>'', c_content_type = ''text/html'',
       c_status = BAD_REQUEST \<rparr>"

text \<open>The bytes that a sequence of \<open>recv\<close> results has delivered.\<close>

definition received :: "recv_result list \<Rightarrow> string" where
  "received rs = concat (map (\<lambda>r. case r of Data chunk \<Rightarrow> chunk | Timeout \<Rightarrow> []) rs)"

text \<open>
  The candidate path as the specification words it: the root joined with the URI
  after stripping a leading slash, then made canonical with symbolic links, \<open>.\<close>
  and \<open>..\<close> resolved.  The resolution is \<open>os.path.realpath\<close>, which reads the file
  system and is a parameter here; \<open>get_file\<close> never calls it.
\<close>

definition spec_candidate :: "(string \<Rightarrow> string) \<Rightarrow> env \<Rightarrow> string \<Rightarrow> string" where
  "spec_candidate realpath env uri =
     realpath (path_join (root_dir env)
                 (case uri of [] \<Rightarrow> [] | c # cs \<Rightarrow> if c = CHR ''/'' then cs else uri))"

text \<open>
  \<open>handler_prefix env k w\<close>: the loop, started in the world \<open>w\<close>, comes back to its
  top \<open>k\<close> times; the result is what it has done until then and the world it is
  in at the top of iteration \<open>k\<close>.
\<close>

fun handler_prefix :: "env \<Rightarrow> nat \<Rightarrow> world \<Rightarrow> (action list \<times> world) option" where
  "handler_prefix env 0 w = Some ([], w)"
| "handler_prefix env (Suc k) w =
     (case handler_prefix env k w of
        None \<Rightarrow> None
      | Some (tr, w') \<Rightarrow>
          (case handler_iter env k w' of
             Some (Again tr' w'') \<Rightarrow> Some (tr @ tr', w'')
           | _ \<Rightarrow> None))"

text \<open>
  The handler an event belongs to, the events of one handler within a sequence, and
  the counter events in what handler number \<open>i\<close> has done.  A sequence of events
  is an interleaving of handler runs when, for every handler in it, its events are
  the beginning of \<open>Start i, End i\<close>.
\<close>

fun event_handler :: "counter_event \<Rightarrow> nat" where
  "event_handler (Start i) = i"
| "event_handler (End i) = i"

definition events_of :: "nat \<Rightarrow> counter_event list \<Rightarrow> counter_event list" where
  "events_of i es = filter (\<lambda>e. event_handler e = i) es"

fun counter_events :: "nat \<Rightarrow> action list \<Rightarrow> counter_event list" where
  "counter_events i [] = []"
| "counter_events i (IncActive # tr) = Start i # counter_events i tr"
| "counter_events i (DecActive # tr) = End i # counter_events i tr"
| "counter_events i (a # tr) = counter_events i tr"

definition interleaved :: "counter_event list \<Rightarrow> bool" where
  "interleaved es =
     list_all (\<lambda>i. prefix (events_of i es) [Start i, End i]) (map event_handler es)"

text \<open>
  The names of the headers of a request: of the lines before the first blank line,
  those with a colon, by the text before it, stripped and in lower case.
\<close>

definition header_keys :: "env \<Rightarrow> utext list \<Rightarrow> utext list" where
  "header_keys env ls =
     map (\<lambda>l. str_lower env (py_strip (takeWhile (\<lambda>c. c \<noteq> 58) l)))
       (filter (\<lambda>l. 58 \<in> set l) (takeWhile (\<lambda>l. py_strip l \<noteq> []) ls))"

section \<open>Example environments\<close>

text \<open>
  The runs on concrete input below receive ASCII bytes only and carry no percent
  escape.  On those, decoding gives the code points of the bytes, encoding gives
  them back, \<open>lower()\<close> maps A--Z to a--z, and \<open>unquote\<close> changes nothing.
\<close>

definition ascii_bytes :: "utext \<Rightarrow> string" where
  "ascii_bytes t = map char_of t"

definition ascii_lower :: "utext \<Rightarrow> utext" where
  "ascii_lower t = map (\<lambda>n. if 65 \<le> n \<and> n \<le> 90 then n + 32 else n) t"

text \<open>
  Two document roots \<open>/srv/www\<close> used for runs on concrete input: one that holds
  \<open>index.html\<close>, one that holds the empty file \<open>empty.txt\<close> and the five-byte
  file \<open>hello.txt\<close>.
\<close>

definition plain_env :: env where
  "plain_env =
     \<lparr> decode_utf8 = text_of, encode_utf8 = ascii_bytes, str_lower = ascii_lower,
       unquote = ascii_bytes,
       guess_type = (\<lambda>p. if endswith p ''.html'' then Some ''text/html'' else None),
       formatdate = (\<lambda>k. ''Thu, 01 Jan 2026 00:00:00 GMT''),
       getcwd = ''/srv'', root_dir = ''/srv/www'',
       path_exists = (\<lambda>p. p = ''/srv/www/index.html''),
       path_isfile = (\<lambda>p. p = ''/srv/www/index.html''),
       access_read = (\<lambda>p. True),
       read_file = (\<lambda>p. ''<p>hi</p>'') \<rparr>"

definition empty_file_env :: env where
  "empty_file_env =
     \<lparr> decode_utf8 = text_of, encode_utf8 = ascii_bytes, str_lower = ascii_lower,
       unquote = ascii_bytes,
       guess_type = (\<lambda>p. if endswith p ''.txt'' then Some ''text/plain'' else None),
       formatdate = (\<lambda>k. ''Thu, 01 Jan 2026 00:00:00 GMT''),
       getcwd = ''/srv'', root_dir = ''/srv/www'',
       path_exists = (\<lambda>p. p = ''/srv/www/empty.txt'' \<or> p = ''/srv/www/hello.txt''),
       path_isfile = (\<lambda>p. p = ''/srv/www/empty.txt'' \<or> p = ''/srv/www/hello.txt''),
       access_read = (\<lambda>p. True),
       read_file = (\<lambda>p. if p = ''/srv/www/hello.txt'' then ''hello'' else []) \<rparr>"

definition get_request :: "string \<Rightarrow> string \<Rightarrow> request" where
  "get_request m u =
     \<lparr> req_method = m, req_uri = u, req_version = ''HTTP/1.0'', req_host = None,
       req_connection = None \<rparr>"

text \<open>
  A document root \<open>/srv/www\<close> in which \<open>out\<close> is a symbolic link to the directory
  \<open>/etc\<close>, where \<open>passwd\<close> is a readable file: what \<open>os.path\<close> and \<open>open\<close> answer
  for paths through the link, and what \<open>os.path.realpath\<close> answers.
\<close>

definition symlink_env :: env where
  "symlink_env =
     \<lparr> decode_utf8 = text_of, encode_utf8 = ascii_bytes, str_lower = ascii_lower,
       unquote = ascii_bytes,
       guess_type = (\<lambda>p. None),
       formatdate = (\<lambda>k. ''Thu, 01 Jan 2026 00:00:00 GMT''),
       getcwd = ''/srv'', root_dir = ''/srv/www'',
       path_exists = (\<lambda>p. p = ''/srv/www/out/passwd''),
       path_isfile = (\<lambda>p. p = ''/srv/www/out/passwd''),
       access_read = (\<lambda>p. p = ''/srv/www/out/passwd''),
       read_file = (\<lambda>p. if p = ''/srv/www/out/passwd'' then ''root:x:0:0:'' else []) \<rparr>"

definition symlink_realpath :: "string \<Rightarrow> string" where
  "symlink_realpath p =
     (let q = normpath p in
      if q = ''/srv/www/out'' then ''/etc''
      else if startswith q ''/srv/www/out/'' then ''/etc/'' @ drop 13 q
      else q)"

text \<open>The variables after a successful request for \<open>index.html\<close>.\<close>

definition index_cycle :: "string \<Rightarrow> string option \<Rightarrow> cycle" where
  "index_cycle ver conn =
     \<lparr> c_version = ver, c_connection = conn, c_body = ''<p>hi</p>'',
       c_content_type = ''text/html'', c_status = OK \<rparr>"

section \<open>Properties of the activity tracker\<close>

lemma inc_active_nonneg: "0 \<le> a \<Longrightarrow> 0 \<le> inc_active a"
  by (simp add: inc_active_def)

lemma dec_active_nonneg: "0 \<le> dec_active a"
  by (simp add: dec_active_def)

lemma run_events_nonneg: "0 \<le> a \<Longrightarrow> 0 \<le> run_events a es"
proof (induction es arbitrary: a)
  case Nil
  then show ?case by (simp add: run_events_def)
next
  case (Cons e es)
  have "0 \<le> apply_event a e"
    using Cons.prems by (cases e) (simp_all add: inc_active_nonneg dec_active_nonneg)
  from Cons.IH [OF this] show ?case by (simp add: run_events_def)
qed

lemma set_started: "set (started es) = {i. Start i \<in> set es}"
  by (induction es rule: started.induct) auto

lemma distinct_started: "distinct es \<Longrightarrow> distinct (started es)"
  by (induction es rule: started.induct) (auto simp: set_started)

lemma handler_order_distinct:
  "handler_order seen es \<Longrightarrow> distinct seen \<Longrightarrow> distinct (rev seen @ es)"
proof (induction es arbitrary: seen)
  case Nil
  then show ?case by simp
next
  case (Cons e es)
  from Cons.prems have "handler_order (e # seen) es" "distinct (e # seen)" by simp_all
  from Cons.IH [OF this] show ?case by simp
qed

lemma length_running: "distinct es \<Longrightarrow> length (running es) = card (live (set es))"
proof -
  assume d: "distinct es"
  have "set (running es) = live (set es)"
    by (auto simp: running_def live_def set_started)
  moreover have "distinct (running es)"
    unfolding running_def using d by (simp add: distinct_started)
  ultimately show ?thesis by (metis distinct_card)
qed

lemma live_Start:
  assumes "Start i \<notin> E" and "End i \<notin> E"
  shows "live (insert (Start i) E) = insert i (live E)" and "i \<notin> live E"
  using assms by (auto simp: live_def)

lemma live_End:
  assumes "Start i \<in> E" and "End i \<notin> E"
  shows "live (insert (End i) E) = live E - {i}" and "i \<in> live E"
  using assms by (auto simp: live_def)

lemma finite_live: "finite E \<Longrightarrow> finite (live E)"
proof -
  assume f: "finite E"
  have "live E \<subseteq> (\<lambda>e. case e of Start i \<Rightarrow> i | End i \<Rightarrow> i) ` E"
    by (force simp: live_def)
  with f show ?thesis by (meson finite_imageI finite_subset)
qed

lemma run_events_card:
  assumes "handler_order seen es"
    and "\<forall>i. End i \<in> set seen \<longrightarrow> Start i \<in> set seen"
    and "a = int (card (live (set seen)))"
  shows "run_events a es = int (card (live (set seen \<union> set es)))"
  using assms
proof (induction es arbitrary: seen a)
  case Nil
  then show ?case by (simp add: run_events_def)
next
  case (Cons e es)
  let ?E = "set seen"
  have fin: "finite (live ?E)" by (simp add: finite_live)
  from Cons.prems(1) have new: "e \<notin> ?E" and ord: "handler_order (e # seen) es" by simp_all
  have closed: "\<forall>i. End i \<in> set (e # seen) \<longrightarrow> Start i \<in> set (e # seen)"
    using Cons.prems(1,2) by (cases e) auto
  have step: "apply_event a e = int (card (live (set (e # seen))))"
  proof (cases e)
    case (Start i)
    with new Cons.prems(2) have "Start i \<notin> ?E" "End i \<notin> ?E" by auto
    from live_Start [OF this] fin Start Cons.prems(3) show ?thesis
      by (simp add: inc_active_def)
  next
    case (End i)
    with new Cons.prems(1) have "Start i \<in> ?E" "End i \<notin> ?E" by auto
    from live_End [OF this] fin End Cons.prems(3) show ?thesis
      by (auto simp: dec_active_def card_Diff_singleton_if card_gt_0_iff
               simp flip: of_nat_diff)
  qed
  have "run_events a (e # es) = run_events (apply_event a e) es"
    by (simp add: run_events_def)
  also have "\<dots> = int (card (live (set (e # seen) \<union> set es)))"
    by (rule Cons.IH [OF ord closed step])
  finally show ?case by simp
qed

text \<open>
  Claim C8.  The keep-alive timeout depends only on the value \<open>n\<close> of the activity
  counter: it is 10 for \<open>n < 5\<close>, 5 for \<open>5 \<le> n < 20\<close> and 2 for \<open>n \<ge> 20\<close>; it never
  increases when \<open>n\<close> grows, and on the counts 0, 4, 5, 19, 20, 50 it is
  10, 10, 5, 5, 2, 2.
\<close>

theorem keepalive_timeout_steps:
  "(n < 5 \<longrightarrow> keepalive_timeout n = 10)
   \<and> (5 \<le> n \<and> n < 20 \<longrightarrow> keepalive_timeout n = 5)
   \<and> (20 \<le> n \<longrightarrow> keepalive_timeout n = 2)
   \<and> (m \<le> n \<longrightarrow> keepalive_timeout n \<le> keepalive_timeout m)
   \<and> map keepalive_timeout [0, 4, 5, 19, 20, 50] = [10, 10, 5, 5, 2, 2]"
  by (simp add: keepalive_timeout_def)

theorem keepalive_timeout_steps_witness:
  "keepalive_timeout 3 = 10 \<and> keepalive_timeout 7 = 5 \<and> keepalive_timeout 25 = 2
   \<and> keepalive_timeout 25 \<le> keepalive_timeout 3"
  using keepalive_timeout_steps [of 3 3] keepalive_timeout_steps [of 7 7]
    keepalive_timeout_steps [of 25 3]
  by simp

section \<open>Properties of the response builder\<close>

lemma split_crlf_line:
  "CR \<notin> set a \<Longrightarrow> split_crlf (a @ CR # LF # rest) = a # split_crlf rest"
proof (induction a)
  case Nil
  then show ?case by simp
next
  case (Cons x a)
  then show ?case by (cases a) auto
qed

lemma digit_char_not_CR: "digit_char d \<noteq> CR" "CR \<noteq> digit_char d"
  by (simp_all add: digit_char_def)

lemma str_nat_no_CR: "CR \<notin> set (str_nat n)"
proof (induction n rule: str_nat.induct)
  case (1 n)
  show ?case
  proof (cases "n < 10")
    case True
    then show ?thesis by (subst str_nat.simps) (simp add: digit_char_not_CR)
  next
    case False
    with 1 show ?thesis by (subst str_nat.simps) (simp add: digit_char_not_CR)
  qed
qed

lemma str_int_status: "CR \<notin> set (str_int (status_value st))"
  by (cases st) (simp_all add: str_int_def str_nat_no_CR)

lemma status_phrase_no_CR: "CR \<notin> set (status_phrase st)"
  by (cases st) simp_all

lemma status_line_no_CR: "CR \<notin> set version \<Longrightarrow> CR \<notin> set (status_line version st)"
  by (simp add: status_line_def str_int_status status_phrase_no_CR)

lemma split_crlf_blank: "split_crlf (CR # LF # rest) = [] # split_crlf rest"
  by simp

lemma takeWhile_lines:
  "\<forall>l \<in> set ls. l \<noteq> [] \<Longrightarrow> takeWhile (\<lambda>l. l \<noteq> []) (ls @ [] # rest) = ls"
  by (induction ls) auto

lemma respond_lines:
  assumes "CR \<notin> set version" and "date = d @ CRLF" and "CR \<notin> set d"
    and "CR \<notin> set content_type" and "CR \<notin> set (fmt_opt connection)"
  shows "\<exists>rest. split_crlf (respond status date version body content_type connection) =
           ([status_line version status, d, ''Content-Type: '' @ content_type]
             @ content_length_lines body @ connection_lines status version connection)
           @ [] # rest"
proof -
  have sl: "CR \<notin> set (status_line version status)"
    using assms(1) by (rule status_line_no_CR)
  have ct: "CR \<notin> set (''Content-Type: '' @ content_type)"
    using assms(4) by simp
  have cl: "CR \<notin> set (''Content-Length: '' @ str_nat (length body))"
    by (simp add: str_nat_no_CR)
  have cn: "CR \<notin> set (''Connection: '' @ fmt_opt connection)"
    using assms(5) by simp
  have cc: "CR \<notin> set ''Connection: close''" by simp
  define tail where "tail = (if status \<noteq> NO_CONTENT then body else [])"
  define conn where "conn =
     (if version = ''HTTP/1.1'' \<and> truthy connection then
        (''Connection: '' @ fmt_opt connection) @ CRLF @ CRLF @ tail
      else if status_value status = 400 then ''Connection: close'' @ CRLF @ CRLF @ tail
      else CRLF @ tail)"
  define clen where "clen =
     (if body \<noteq> [] then (''Content-Length: '' @ str_nat (length body)) @ CRLF @ conn else conn)"
  have shape: "respond status date version body content_type connection =
      status_line version status @ CRLF @ d @ CRLF
        @ (''Content-Type: '' @ content_type) @ CRLF @ clen"
    by (simp add: respond_def status_line_def assms(2) clen_def conn_def tail_def Let_def)
  have conn_split: "split_crlf conn =
      connection_lines status version connection @ [] # split_crlf tail"
    unfolding conn_def connection_lines_def
    using split_crlf_line [OF cn, of "CRLF @ tail"] split_crlf_line [OF cc, of "CRLF @ tail"]
    by simp
  have clen_split: "split_crlf clen =
      content_length_lines body @ connection_lines status version connection
        @ [] # split_crlf tail"
    unfolding clen_def content_length_lines_def
    using split_crlf_line [OF cl, of conn] conn_split by simp
  have "split_crlf (respond status date version body content_type connection) =
      status_line version status # d # (''Content-Type: '' @ content_type) # split_crlf clen"
    unfolding shape
    using split_crlf_line [OF sl, of "d @ CRLF @ (''Content-Type: '' @ content_type) @ CRLF @ clen"]
      split_crlf_line [OF assms(3), of "(''Content-Type: '' @ content_type) @ CRLF @ clen"]
      split_crlf_line [OF ct, of clen]
    by simp
  with clen_split show ?thesis by simp
qed

lemma respond_head:
  assumes "CR \<notin> set version" and "date = d @ CRLF" and "CR \<notin> set d" and "d \<noteq> []"
    and "CR \<notin> set content_type" and "CR \<notin> set (fmt_opt connection)"
  shows "response_head (respond status date version body content_type connection) =
           [status_line version status, d, ''Content-Type: '' @ content_type]
             @ content_length_lines body @ connection_lines status version connection"
proof -
  from respond_lines [OF assms(1,2,3,5,6)] obtain rest where
    sp: "split_crlf (respond status date version body content_type connection) =
           ([status_line version status, d, ''Content-Type: '' @ content_type]
             @ content_length_lines body @ connection_lines status version connection)
           @ [] # rest" by blast
  have ne: "\<forall>l \<in> set ([status_line version status, d, ''Content-Type: '' @ content_type]
             @ content_length_lines body @ connection_lines status version connection). l \<noteq> []"
    using assms(4)
    by (auto simp: status_line_def content_length_lines_def connection_lines_def)
  show ?thesis
    unfolding response_head_def sp by (rule takeWhile_lines [OF ne])
qed

lemma respond_headers:
  assumes "CR \<notin> set version" and "CR \<notin> set stamp" and "CR \<notin> set content_type"
    and "case connection of None \<Rightarrow> True | Some d \<Rightarrow> CR \<notin> set d"
  shows "tl (response_head
           (respond status (''Date: '' @ stamp @ CRLF) version body content_type connection)) =
         [''Date: '' @ stamp, ''Content-Type: '' @ content_type]
           @ content_length_lines body @ connection_lines status version connection"
proof -
  have c: "CR \<notin> set (fmt_opt connection)"
    using assms(4) by (cases connection) (simp_all add: fmt_opt_def)
  have d: "''Date: '' @ stamp @ CRLF = (''Date: '' @ stamp) @ CRLF" by simp
  have "response_head
           (respond status (''Date: '' @ stamp @ CRLF) version body content_type connection) =
         [status_line version status, ''Date: '' @ stamp, ''Content-Type: '' @ content_type]
           @ content_length_lines body @ connection_lines status version connection"
    by (rule respond_head [OF assms(1) d _ _ assms(3) c]) (use assms(2) in simp_all)
  then show ?thesis by simp
qed

text \<open>
  Claim C3, as the code has it.  In a response built by \<open>respond\<close> whose version,
  date, content type and directive hold no carriage return, the headers named
  \<open>Connection\<close> are: \<open>Connection: <directive>\<close> when the version is \<open>HTTP/1.1\<close> and
  the directive is present and not empty; otherwise \<open>Connection: close\<close> when the
  status is exactly 400; otherwise none.
\<close>

theorem respond_connection_header:
  assumes "CR \<notin> set version" and "CR \<notin> set stamp" and "CR \<notin> set content_type"
    and "case connection of None \<Rightarrow> True | Some d \<Rightarrow> CR \<notin> set d"
  shows "headers_named ''Connection''
           (respond status (''Date: '' @ stamp @ CRLF) version body content_type connection) =
         (if version = ''HTTP/1.1'' \<and> truthy connection
            then [''Connection: '' @ the connection]
          else if status_value status = 400 then [''Connection: close'']
          else [])"
proof -
  have "truthy connection \<Longrightarrow> fmt_opt connection = the connection"
    by (cases connection) (simp_all add: truthy_def fmt_opt_def)
  then show ?thesis
    unfolding headers_named_def respond_headers [OF assms]
    by (simp add: header_name_def content_length_lines_def connection_lines_def)
qed

theorem respond_connection_header_witness:
  "headers_named ''Connection''
     (respond OK (''Date: Thu, 01 Jan 2026 00:00:00 GMT'' @ CRLF) ''HTTP/1.1'' ''<p>hi</p>''
        ''text/html'' (Some ''keep-alive'')) = [''Connection: keep-alive'']
   \<and> headers_named ''Connection''
     (respond BAD_REQUEST (''Date: Thu, 01 Jan 2026 00:00:00 GMT'' @ CRLF) ''HTTP/1.0''
        ''<h1>400 Bad Request</h1>'' ''text/html'' None) = [''Connection: close'']"
  using respond_connection_header [of "''HTTP/1.1''" "''Thu, 01 Jan 2026 00:00:00 GMT''"
      "''text/html''" "Some ''keep-alive''" OK "''<p>hi</p>''"]
    respond_connection_header [of "''HTTP/1.0''" "''Thu, 01 Jan 2026 00:00:00 GMT''"
      "''text/html''" None BAD_REQUEST "''<h1>400 Bad Request</h1>''"]
  by (simp add: truthy_def)

text \<open>
  Claim C3 as the specification words it fails: 404 is a 400-class status, and the
  404 response to an HTTP/1.0 request has no \<open>Connection\<close> header and nowhere the
  text \<open>Connection: close\<close>.
\<close>

theorem respond_not_found_without_connection_header:
  "400 \<le> status_value NOT_FOUND \<and> status_value NOT_FOUND < 500
   \<and> headers_named ''Connection''
        (respond NOT_FOUND (''Date: Thu, 01 Jan 2026 00:00:00 GMT'' @ CRLF) ''HTTP/1.0''
           ''<h1>404 Not Found</h1>'' ''text/html'' None) = []
   \<and> \<not> contains ''Connection: close''
        (respond NOT_FOUND (''Date: Thu, 01 Jan 2026 00:00:00 GMT'' @ CRLF) ''HTTP/1.0''
           ''<h1>404 Not Found</h1>'' ''text/html'' None)"
  by code_simp

lemma content_length_header:
  assumes "CR \<notin> set version" and "CR \<notin> set stamp" and "CR \<notin> set content_type"
    and "case connection of None \<Rightarrow> True | Some d \<Rightarrow> CR \<notin> set d"
  shows "headers_named ''Content-Length''
           (respond status (''Date: '' @ stamp @ CRLF) version body content_type connection) =
         (if body \<noteq> [] then [''Content-Length: '' @ str_nat (length body)] else [])"
  unfolding headers_named_def respond_headers [OF assms]
  by (simp add: header_name_def content_length_lines_def connection_lines_def)

lemma serve_found:
  "get_file env (req_uri q) = Inr file \<Longrightarrow>
   serve env q =
     Completed \<lparr> c_version = req_version q, c_connection = req_connection q,
                 c_body = (if req_method q = ''GET'' then read_file env file else []),
                 c_content_type =
                   (if truthy (guess_type env file) then fmt_opt (guess_type env file)
                    else ''application/octet-stream''),
                 c_status = OK \<rparr>"
  by (simp add: serve_def)

text \<open>
  Claim C5, as the code has it.  A response built by \<open>respond\<close> (whose version, date,
  content type and directive hold no carriage return) has the header
  \<open>Content-Length: <len(body)>\<close> when its body is not empty, and no \<open>Content-Length\<close>
  header when it is empty.  So the 200 response for a file that \<open>get_file\<close> found
  carries \<open>Content-Length\<close> with the size of the file when the method is \<open>GET\<close> and
  the file is not empty, and no \<open>Content-Length\<close> header otherwise: for \<open>HEAD\<close>, and
  for \<open>GET\<close> of an empty file.
\<close>

theorem content_length_policy:
  assumes "CR \<notin> set version" and "CR \<notin> set stamp" and "CR \<notin> set content_type"
    and "case connection of None \<Rightarrow> True | Some d \<Rightarrow> CR \<notin> set d"
    and "get_file env (req_uri q) = Inr file"
    and "serve env q = Completed c"
    and "CR \<notin> set (req_version q)" and "CR \<notin> set (formatdate env k)"
    and "case guess_type env file of None \<Rightarrow> True | Some t \<Rightarrow> CR \<notin> set t"
    and "case req_connection q of None \<Rightarrow> True | Some d \<Rightarrow> CR \<notin> set d"
  shows "headers_named ''Content-Length''
           (respond status (''Date: '' @ stamp @ CRLF) version body content_type connection) =
         (if body \<noteq> [] then [''Content-Length: '' @ str_nat (length body)] else [])
     \<and> c_status c = OK
     \<and> c_body c = (if req_method q = ''GET'' then read_file env file else [])
     \<and> headers_named ''Content-Length'' (response_of env k c) =
        (if req_method q = ''GET'' \<and> read_file env file \<noteq> []
         then [''Content-Length: '' @ str_nat (length (read_file env file))] else [])"
proof -
  from serve_found [OF assms(5)] assms(6)
  have c: "c = \<lparr> c_version = req_version q, c_connection = req_connection q,
                 c_body = (if req_method q = ''GET'' then read_file env file else []),
                 c_content_type =
                   (if truthy (guess_type env file) then fmt_opt (guess_type env file)
                    else ''application/octet-stream''),
                 c_status = OK \<rparr>" by simp
  have ct: "CR \<notin> set (c_content_type c)"
    using assms(9) by (cases "guess_type env file") (simp_all add: c truthy_def fmt_opt_def)
  have v: "CR \<notin> set (c_version c)" using assms(7) by (simp add: c)
  have cn: "case c_connection c of None \<Rightarrow> True | Some d \<Rightarrow> CR \<notin> set d"
    using assms(10) by (simp add: c)
  have "headers_named ''Content-Length'' (response_of env k c) =
        (if c_body c \<noteq> [] then [''Content-Length: '' @ str_nat (length (c_body c))] else [])"
    unfolding response_of_def by (rule content_length_header [OF v assms(8) ct cn])
  with content_length_header [OF assms(1-4), of status body] show ?thesis by (simp add: c)
qed

theorem content_length_policy_witness:
  "headers_named ''Content-Length''
     (respond FORBIDDEN (''Date: Thu, 01 Jan 2026 00:00:00 GMT'' @ CRLF) ''HTTP/1.1''
        ''<h1>403 Forbidden</h1>'' ''text/html'' (Some ''keep-alive'')) =
     [''Content-Length: 22'']
   \<and> serve empty_file_env (get_request ''GET'' ''/hello.txt'') =
       Completed \<lparr> c_version = ''HTTP/1.0'', c_connection = None, c_body = ''hello'',
                   c_content_type = ''text/plain'', c_status = OK \<rparr>
   \<and> headers_named ''Content-Length''
       (response_of empty_file_env 0
          \<lparr> c_version = ''HTTP/1.0'', c_connection = None, c_body = ''hello'',
            c_content_type = ''text/plain'', c_status = OK \<rparr>) = [''Content-Length: 5'']"
proof -
  let ?q = "get_request ''GET'' ''/hello.txt''"
  let ?c = "\<lparr> c_version = ''HTTP/1.0'', c_connection = None, c_body = ''hello'',
            c_content_type = ''text/plain'', c_status = OK \<rparr>"
  have 1: "CR \<notin> set ''HTTP/1.1''" and 2: "CR \<notin> set ''Thu, 01 Jan 2026 00:00:00 GMT''"
    and 3: "CR \<notin> set ''text/html''" by simp_all
  have 4: "case Some ''keep-alive'' of None \<Rightarrow> True | Some d \<Rightarrow> CR \<notin> set d" by simp
  have 5: "get_file empty_file_env (req_uri ?q) = Inr ''/srv/www/hello.txt''" by code_simp
  have 6: "serve empty_file_env ?q = Completed ?c" by code_simp
  have 7: "CR \<notin> set (req_version ?q)" by code_simp
  have 8: "CR \<notin> set (formatdate empty_file_env 0)" by code_simp
  have 9: "case guess_type empty_file_env ''/srv/www/hello.txt'' of
             None \<Rightarrow> True | Some t \<Rightarrow> CR \<notin> set t" by code_simp
  have 10: "case req_connection ?q of None \<Rightarrow> True | Some d \<Rightarrow> CR \<notin> set d" by code_simp
  have rf: "read_file empty_file_env ''/srv/www/hello.txt'' = ''hello''" by code_simp
  have len: "str_nat (length ''<h1>403 Forbidden</h1>'') = ''22''"
    "str_nat (length ''hello'') = ''5''" "req_method ?q = ''GET''"
    by code_simp+
  from content_length_policy [OF 1 2 3 4 5 6 7 8 9 10, of FORBIDDEN "''<h1>403 Forbidden</h1>''"]
    6 len
  show ?thesis by (simp add: rf del: length_Cons list.size)
qed

text \<open>
  Claim C5 as the specification words it fails on an empty file: the \<open>GET\<close> succeeds
  with 200, the file has size 0, and the response has no \<open>Content-Length\<close> header.
\<close>

theorem empty_file_get_without_content_length:
  "read_file empty_file_env ''/srv/www/empty.txt'' = []
   \<and> handler empty_file_env
        \<lparr> active = 0, stops = [False, False],
          recvs = [Data (''GET /empty.txt HTTP/1.0'' @ CRLF @ CRLF)], selects = [] \<rparr> =
      Some ([IncActive,
             Send (''HTTP/1.0 200 OK'' @ CRLF @ ''Date: Thu, 01 Jan 2026 00:00:00 GMT'' @ CRLF
                   @ ''Content-Type: text/plain'' @ CRLF @ CRLF),
             DecActive, Close],
            \<lparr> active = 0, stops = [], recvs = [], selects = [] \<rparr>)"
  by code_simp

section \<open>Properties of the handler\<close>

lemma recv_loop_error:
  "recv_loop ss rs buf = Some (Inl e, ss', rs') \<Longrightarrow> e = ValueError ''connection disrupted''"
proof (induction ss rs buf rule: recv_loop.induct)
  case (1 rs request)
  then show ?case by simp
next
  case (2 stop ss rs request)
  then show ?case
    by (cases rs; cases "hd rs") (auto split: if_splits)
qed

lemma parse_text_error: "parse_text env text = Inl e \<Longrightarrow> \<exists>m. e = ValueError m"
  by (auto simp: parse_text_def Let_def split: if_splits list.splits prod.splits)

lemma parse_request_error:
  "parse_request env w = Some (Raised e, w') \<Longrightarrow> \<exists>m. e = ValueError m"
  by (auto simp: parse_request_def split: option.splits sum.splits
           dest!: recv_loop_error parse_text_error)

lemma handler_iter_parse_error:
  assumes "stops w = False # ss"
    and "parse_request env (w\<lparr>stops := ss\<rparr>) = Some (Raised e, w1)"
  shows "handler_iter env k w = Some (Exit [Send (response_of env k bad_request)] w1)"
proof -
  from parse_request_error [OF assms(2)] obtain m where e: "e = ValueError m" by blast
  have "handler_try env (w\<lparr>stops := ss\<rparr>) = Some (Completed bad_request, w1)"
    by (simp add: handler_try_def assms(2) e on_error_def bad_request_def)
  then show ?thesis
    by (simp add: handler_iter_def assms(1) bad_request_def)
qed

lemma handler_loop_parse_error:
  assumes "stops w = False # ss"
    and "parse_request env (w\<lparr>stops := ss\<rparr>) = Some (Raised e, w1)"
  shows "handler_loop env k w = Some ([Send (response_of env k bad_request)], w1)"
  by (subst handler_loop.simps) (simp add: handler_iter_parse_error [OF assms])

lemma bad_request_response:
  "\<exists>rest. response_of env k bad_request = ''HTTP/1.0 400 Bad Request'' @ CRLF @ rest"
proof -
  have "str_int 400 = ''400''" by code_simp
  then show ?thesis
    by (simp add: response_of_def bad_request_def respond_def truthy_def)
qed

text \<open>
  Claim C7.  For every environment (document root, working directory and file
  system), \<open>get_file\<close> gives the same result on \<open>/\<close> as on \<open>/index.html\<close>: the same
  path or the same exception with the same message.
\<close>

theorem get_file_root_is_index: "get_file env ''/'' = get_file env ''/index.html''"
  by (simp add: get_file_def)

theorem get_file_root_is_index_witness:
  "get_file plain_env ''/'' = Inr ''/srv/www/index.html''
   \<and> get_file (plain_env\<lparr>path_exists := (\<lambda>p. False)\<rparr>) ''/'' =
       Inl (FileNotFoundError ''/index.html not found in directory'')"
proof -
  have "get_file plain_env ''/index.html'' = Inr ''/srv/www/index.html''"
    by code_simp
  moreover have "get_file (plain_env\<lparr>path_exists := (\<lambda>p. False)\<rparr>) ''/index.html'' =
       Inl (FileNotFoundError ''/index.html not found in directory'')"
    by code_simp
  ultimately show ?thesis
    using get_file_root_is_index [of plain_env]
      get_file_root_is_index [of "plain_env\<lparr>path_exists := (\<lambda>p. False)\<rparr>"]
    by simp
qed

text \<open>
  Claim C10.  When \<open>parse_request\<close> raises in an iteration of the handler, the one
  response of that iteration begins with the status line \<open>HTTP/1.0 400 Bad Request\<close>,
  whatever the bytes the client sent, and the handler leaves the loop.
\<close>

theorem parse_failure_answers_http_1_0:
  assumes "stops w = False # ss"
    and "parse_request env (w\<lparr>stops := ss\<rparr>) = Some (Raised e, w1)"
  shows "\<exists>rest. handler_loop env k w =
           Some ([Send (''HTTP/1.0 400 Bad Request'' @ CRLF @ rest)], w1)"
  using handler_loop_parse_error [OF assms, of k] bad_request_response [of env k] by auto

theorem parse_failure_answers_http_1_0_witness:
  "\<exists>rest. handler_loop plain_env 0
      \<lparr> active = 1, stops = [False, False],
        recvs = [Data (''GET / HTTP/1.1'' @ CRLF @ CRLF)], selects = [] \<rparr> =
    Some ([Send (''HTTP/1.0 400 Bad Request'' @ CRLF @ rest)],
          \<lparr> active = 1, stops = [], recvs = [], selects = [] \<rparr>)"
proof -
  let ?w = "\<lparr> active = 1, stops = [False, False],
        recvs = [Data (''GET / HTTP/1.1'' @ CRLF @ CRLF)], selects = [] \<rparr>"
  have s: "stops ?w = False # [False]" by simp
  have p: "parse_request plain_env (?w\<lparr>stops := [False]\<rparr>) =
      Some (Raised (ValueError ''HTTP/1.1 with missing Host header''),
            \<lparr> active = 1, stops = [], recvs = [], selects = [] \<rparr>)"
    by code_simp
  show ?thesis by (rule parse_failure_answers_http_1_0 [OF s p])
qed

lemma contains_sublist: "contains sub s \<longleftrightarrow> sublist sub s"
  by (induction s) (auto simp: sublist_Cons_right)

lemma not_contains_prefix: "\<not> contains sub (a @ b) \<Longrightarrow> \<not> contains sub a"
  unfolding contains_sublist by (meson sublist_appendI sublist_order.order_trans sublist_append_rightI)

lemma recv_loop_disrupted:
  assumes "\<forall>r \<in> set pre. r \<noteq> Data []"
    and "\<not> contains (CRLF @ CRLF) (buf @ received pre)"
  shows "recv_loop (replicate (Suc (length pre)) False @ ss) (pre @ Data [] # rs) buf =
           Some (Inl (ValueError ''connection disrupted''), ss, rs)"
  using assms
proof (induction pre arbitrary: buf)
  case Nil
  then show ?case by simp
next
  case (Cons r pre)
  show ?case
  proof (cases r)
    case Timeout
    with Cons.prems have "\<not> contains (CRLF @ CRLF) (buf @ received pre)"
      by (simp add: received_def)
    with Cons.IH [of buf] Cons.prems(1) Timeout show ?thesis by simp
  next
    case (Data chunk)
    with Cons.prems(1) have ne: "chunk \<noteq> []" by auto
    from Cons.prems(2) Data have nc: "\<not> contains (CRLF @ CRLF) ((buf @ chunk) @ received pre)"
      by (simp add: received_def)
    then have "\<not> contains (CRLF @ CRLF) (buf @ chunk)" by (rule not_contains_prefix)
    with Cons.IH [OF _ nc] Cons.prems(1) Data ne show ?thesis by simp
  qed
qed


lemma handler_parse_error:
  assumes "stops w = False # ss"
    and "parse_request env (w\<lparr>stops := ss\<rparr>) = Some (Raised e, w1)"
  shows "handler env w =
           Some ([IncActive, Send (response_of env 0 bad_request), DecActive, Close],
                 w1\<lparr>active := dec_active (inc_active (active w))\<rparr>)"
proof -
  let ?w = "w\<lparr>active := inc_active (active w)\<rparr>"
  have s: "stops ?w = False # ss" using assms(1) by simp
  have "parse_request env (?w\<lparr>stops := ss\<rparr>) =
          Some (Raised e, w1\<lparr>active := inc_active (active w)\<rparr>)"
    using assms(2) by (auto simp: parse_request_def split: option.splits)
  from handler_loop_parse_error [OF s this, of 0] show ?thesis
    by (simp add: handler_def)
qed

text \<open>
  Claim C9.  When \<open>recv\<close> returns no bytes after reads that were timeouts or data
  without the terminator \<open>\r\n\r\n\<close>, and the stop flag was not set, \<open>parse_request\<close>
  raises \<open>ValueError("connection disrupted")\<close>; the handler answers with the 400
  response, closes the socket and returns (no exception leaves it).  A read that
  times out is followed by the next turn of the loop with the bytes received so far;
  a set stop flag makes the loop return \<open>None\<close>, and the handler then closes
  without sending anything.
\<close>

theorem disrupted_read_is_bad_request:
  assumes "\<forall>r \<in> set pre. r \<noteq> Data []"
    and "\<not> contains (CRLF @ CRLF) (received pre)"
    and "stops w = False # replicate (Suc (length pre)) False @ ss"
    and "recvs w = pre @ Data [] # rs"
  shows "parse_request env (w\<lparr>stops := tl (stops w)\<rparr>) =
           Some (Raised (ValueError ''connection disrupted''), w\<lparr>stops := ss, recvs := rs\<rparr>)
     \<and> handler env w =
           Some ([IncActive, Send (response_of env 0 bad_request), DecActive, Close],
                 w\<lparr>stops := ss, recvs := rs,
                   active := dec_active (inc_active (active w))\<rparr>)
     \<and> c_status bad_request = BAD_REQUEST
     \<and> recv_loop (False # ss') (Timeout # rs') buf = recv_loop ss' rs' buf
     \<and> recv_loop (True # ss') rs' buf = Some (Inr None, ss', rs')
     \<and> (stops w' = False # True # ss' \<longrightarrow>
          handler env w' =
            Some ([IncActive, DecActive, Close],
                  w'\<lparr>stops := ss', active := dec_active (inc_active (active w'))\<rparr>))"
proof -
  have rl: "recv_loop (replicate (Suc (length pre)) False @ ss) (pre @ Data [] # rs) [] =
           Some (Inl (ValueError ''connection disrupted''), ss, rs)"
    by (rule recv_loop_disrupted) (use assms(1,2) in simp_all)
  have p: "parse_request env (w\<lparr>stops := replicate (Suc (length pre)) False @ ss\<rparr>) =
           Some (Raised (ValueError ''connection disrupted''), w\<lparr>stops := ss, recvs := rs\<rparr>)"
    using rl by (simp add: parse_request_def assms(4))
  have h: "handler env w =
           Some ([IncActive, Send (response_of env 0 bad_request), DecActive, Close],
                 w\<lparr>stops := ss, recvs := rs,
                   active := dec_active (inc_active (active w))\<rparr>)"
    using handler_parse_error [OF assms(3) p] by simp
  have c: "handler env w' =
            Some ([IncActive, DecActive, Close],
                  w'\<lparr>stops := ss', active := dec_active (inc_active (active w'))\<rparr>)"
    if "stops w' = False # True # ss'"
  proof -
    have "handler_iter env 0 (w'\<lparr>active := inc_active (active w')\<rparr>) =
            Some (Exit [] (w'\<lparr>active := inc_active (active w'), stops := ss'\<rparr>))"
      using that by (simp add: handler_iter_def handler_try_def parse_request_def)
    then show ?thesis
      by (simp add: handler_def handler_loop.simps [of env 0])
  qed
  from p h c show ?thesis by (simp add: assms(3) bad_request_def)
qed

theorem disrupted_read_is_bad_request_witness:
  "handler plain_env
     \<lparr> active = 0, stops = [False, False, False, False, True],
       recvs = [Timeout, Data ''GET / HT'', Data [], Timeout], selects = [True] \<rparr> =
   Some ([IncActive, Send (response_of plain_env 0 bad_request), DecActive, Close],
         \<lparr> active = 0, stops = [True], recvs = [Timeout], selects = [True] \<rparr>)
   \<and> handler plain_env
     \<lparr> active = 0, stops = [False, True, False], recvs = [Timeout], selects = [] \<rparr> =
   Some ([IncActive, DecActive, Close],
         \<lparr> active = 0, stops = [False], recvs = [Timeout], selects = [] \<rparr>)"
proof -
  let ?pre = "[Timeout, Data ''GET / HT'']"
  let ?w = "\<lparr> active = 0, stops = [False, False, False, False, True],
       recvs = [Timeout, Data ''GET / HT'', Data [], Timeout], selects = [True] \<rparr>"
  let ?w' = "\<lparr> active = 0, stops = [False, True, False], recvs = [Timeout], selects = [] \<rparr>"
  have 1: "\<forall>r \<in> set ?pre. r \<noteq> Data []" by simp
  have 2: "\<not> contains (CRLF @ CRLF) (received ?pre)" by (simp add: received_def)
  have 3: "stops ?w = False # replicate (Suc (length ?pre)) False @ [True]"
    by (simp add: numeral_eq_Suc)
  have 4: "recvs ?w = ?pre @ Data [] # [Timeout]" by simp
  have 5: "stops ?w' = False # True # [False]" by simp
  from disrupted_read_is_bad_request [OF 1 2 3 4, where env = plain_env and w' = ?w'
      and ss' = "[False]"]
  show ?thesis by (simp add: inc_active_def dec_active_def)
qed

lemma serve_keeps_request:
  "serve env q = Completed c \<Longrightarrow>
   c_version c = req_version q \<and> c_connection c = req_connection q"
  by (auto simp: serve_def on_error_def split: sum.splits error.splits)

lemma handler_try_parsed:
  assumes "handler_try env w = Some (Completed c, w1)"
    and "parse_request env w = Some (Parsed q, w1')"
  shows "c_version c = req_version q \<and> c_connection c = req_connection q"
  using assms by (auto simp: handler_try_def dest: serve_keeps_request)

lemma handler_loop_from_prefix:
  "handler_prefix env k w0 = Some (pre, w) \<Longrightarrow>
   handler_loop env 0 w0 =
     (case handler_loop env k w of None \<Rightarrow> None | Some (tr, w') \<Rightarrow> Some (pre @ tr, w'))"
proof (induction k arbitrary: pre w)
  case 0
  then show ?case by (auto split: option.splits)
next
  case (Suc k)
  from Suc.prems obtain tr1 w1 tr2 where
    p: "handler_prefix env k w0 = Some (tr1, w1)"
    and it: "handler_iter env k w1 = Some (Again tr2 w)" and pre: "pre = tr1 @ tr2"
    by (auto split: option.splits iteration.splits)
  have "handler_loop env k w1 =
      (case handler_loop env (Suc k) w of None \<Rightarrow> None | Some (tr, w') \<Rightarrow> Some (tr2 @ tr, w'))"
    by (subst handler_loop.simps) (simp add: it)
  with Suc.IH [OF p] show ?case
    by (auto simp: pre split: option.splits)
qed

lemma handler_from_prefix:
  assumes "handler_prefix env k (w0\<lparr>active := inc_active (active w0)\<rparr>) = Some (pre, w)"
    and "handler_loop env k w = Some (tr, w')"
  shows "handler env w0 =
           Some (IncActive # pre @ tr @ [DecActive, Close],
                 w'\<lparr>active := dec_active (active w')\<rparr>)"
  using handler_loop_from_prefix [OF assms(1)] assms(2) by (simp add: handler_def)

text \<open>
  Claim C2.  Take an iteration of the handler that found the stop flag unset and
  whose \<open>try\<close> statement completed with the variables \<open>c\<close> (after a parsed request
  they hold the version and the directive of that request).  If the version is
  \<open>HTTP/1.0\<close>, or the directive is \<open>close\<close>, or the status is at least 400, the loop
  ends after sending the one response: nothing more is read from the socket.
  Otherwise the handler calls \<open>select\<close> with the keep-alive timeout (0.1 when the stop
  flag is set by then); when the socket is readable it runs the next iteration, and
  when it is not the loop ends.  For the handler whose loop has reached this
  iteration: in the first case all it does afterwards is \<open>dec_active\<close> and \<open>close\<close>,
  so its trace ends with the response, the decrement and the close; in the second
  case it either is at the top of the next iteration, where it may serve another
  request, or ends in the same way after the wait.
\<close>

theorem persistence_decision:
  assumes "stops w = False # ss"
    and "handler_try env (w\<lparr>stops := ss\<rparr>) = Some (Completed c, w1)"
  shows "(c_version c = ''HTTP/1.0'' \<or> c_connection c = Some ''close''
            \<or> 400 \<le> status_value (c_status c) \<longrightarrow>
          handler_loop env k w = Some ([Send (response_of env k c)], w1))
     \<and> (c_version c \<noteq> ''HTTP/1.0'' \<and> c_connection c \<noteq> Some ''close''
            \<and> status_value (c_status c) < 400
            \<and> stops w1 = stopped # ss' \<and> selects w1 = ready # rest \<longrightarrow>
          handler_loop env k w =
            (let idle = [Send (response_of env k c),
                         Select (if stopped then 0.1
                                 else real_of_int (keepalive_timeout (active w1)))];
                 w2 = w1\<lparr>stops := ss', selects := rest\<rparr>
             in if ready then
                  (case handler_loop env (Suc k) w2 of
                     None \<Rightarrow> None
                   | Some (tr, w3) \<Rightarrow> Some (idle @ tr, w3))
                else Some (idle, w2)))
     \<and> (parse_request env (w\<lparr>stops := ss\<rparr>) = Some (Parsed q, w1) \<longrightarrow>
          c_version c = req_version q \<and> c_connection c = req_connection q)
     \<and> (handler_prefix env k (w0\<lparr>active := inc_active (active w0)\<rparr>) = Some (pre, w) \<longrightarrow>
          (c_version c = ''HTTP/1.0'' \<or> c_connection c = Some ''close''
             \<or> 400 \<le> status_value (c_status c) \<longrightarrow>
           handler env w0 =
             Some (IncActive # pre @ [Send (response_of env k c), DecActive, Close],
                   w1\<lparr>active := dec_active (active w1)\<rparr>))
        \<and> (c_version c \<noteq> ''HTTP/1.0'' \<and> c_connection c \<noteq> Some ''close''
             \<and> status_value (c_status c) < 400
             \<and> stops w1 = stopped # ss' \<and> selects w1 = ready # rest \<longrightarrow>
           (let idle = [Send (response_of env k c),
                        Select (if stopped then 0.1
                                else real_of_int (keepalive_timeout (active w1)))];
                w2 = w1\<lparr>stops := ss', selects := rest\<rparr>
            in if ready then
                 handler_prefix env (Suc k) (w0\<lparr>active := inc_active (active w0)\<rparr>) =
                   Some (pre @ idle, w2)
               else
                 handler env w0 =
                   Some (IncActive # pre @ idle @ [DecActive, Close],
                         w2\<lparr>active := dec_active (active w2)\<rparr>))))"
proof -
  let ?r = "response_of env k c"
  let ?closing = "c_version c = ''HTTP/1.0'' \<or> c_connection c = Some ''close''
            \<or> 400 \<le> status_value (c_status c)"
  let ?idle = "[Send ?r, Select (if stopped then 0.1
                                 else real_of_int (keepalive_timeout (active w1)))]"
  let ?w2 = "w1\<lparr>stops := ss', selects := rest\<rparr>"
  let ?w0 = "w0\<lparr>active := inc_active (active w0)\<rparr>"
  have it_closing: "handler_iter env k w = Some (Exit [Send ?r] w1)" if "?closing"
    using that by (auto simp: handler_iter_def assms)
  have closing: "handler_loop env k w = Some ([Send ?r], w1)" if "?closing"
    using it_closing [OF that] by (subst handler_loop.simps) simp
  have it_idle: "handler_iter env k w = Some (if ready then Again ?idle ?w2 else Exit ?idle ?w2)"
    if "c_version c \<noteq> ''HTTP/1.0''" "c_connection c \<noteq> Some ''close''"
       "status_value (c_status c) < 400" "stops w1 = stopped # ss'" "selects w1 = ready # rest"
    using that by (simp add: handler_iter_def assms Let_def)
  have idle: "handler_loop env k w =
            (let idle = ?idle; w2 = ?w2
             in if ready then
                  (case handler_loop env (Suc k) w2 of
                     None \<Rightarrow> None
                   | Some (tr, w3) \<Rightarrow> Some (idle @ tr, w3))
                else Some (idle, w2))"
    if "c_version c \<noteq> ''HTTP/1.0''" "c_connection c \<noteq> Some ''close''"
       "status_value (c_status c) < 400" "stops w1 = stopped # ss'" "selects w1 = ready # rest"
    using it_idle [OF that] by (subst handler_loop.simps) (simp add: Let_def)
  have h_closing: "handler env w0 =
             Some (IncActive # pre @ [Send ?r, DecActive, Close],
                   w1\<lparr>active := dec_active (active w1)\<rparr>)"
    if "handler_prefix env k ?w0 = Some (pre, w)" "?closing"
    using handler_from_prefix [OF that(1) closing [OF that(2)]] by simp
  have h_idle: "if ready then handler_prefix env (Suc k) ?w0 = Some (pre @ ?idle, ?w2)
               else handler env w0 =
                   Some (IncActive # pre @ ?idle @ [DecActive, Close],
                         ?w2\<lparr>active := dec_active (active ?w2)\<rparr>)"
    if p: "handler_prefix env k ?w0 = Some (pre, w)"
      and n: "c_version c \<noteq> ''HTTP/1.0''" "c_connection c \<noteq> Some ''close''"
       "status_value (c_status c) < 400" "stops w1 = stopped # ss'" "selects w1 = ready # rest"
  proof (cases ready)
    case True
    with it_idle [OF n] p show ?thesis by simp
  next
    case False
    with idle [OF n] have "handler_loop env k w = Some (?idle, ?w2)" by (simp add: Let_def)
    from handler_from_prefix [OF p this] False show ?thesis by simp
  qed
  show ?thesis
    using closing idle handler_try_parsed [OF assms(2)] h_closing h_idle
    unfolding Let_def by blast
qed

theorem persistence_decision_witness:
  "handler_loop plain_env 0
     \<lparr> active = 1, stops = [False, False, False, False, False],
       recvs = [Data (''GET / HTTP/1.1'' @ CRLF @ ''Host: x'' @ CRLF @ CRLF),
                Data (''GET / HTTP/1.0'' @ CRLF @ CRLF),
                Data (''GET / HTTP/1.0'' @ CRLF @ CRLF)],
       selects = [True, True] \<rparr> =
   Some ([Send (response_of plain_env 0 (index_cycle ''HTTP/1.1'' None)), Select 10,
          Send (response_of plain_env 1 (index_cycle ''HTTP/1.0'' None))],
         \<lparr> active = 1, stops = [], recvs = [Data (''GET / HTTP/1.0'' @ CRLF @ CRLF)],
           selects = [True] \<rparr>)
   \<and> handler plain_env
     \<lparr> active = 0, stops = [False, False, False, False, False],
       recvs = [Data (''GET / HTTP/1.1'' @ CRLF @ ''Host: x'' @ CRLF @ CRLF),
                Data (''GET / HTTP/1.0'' @ CRLF @ CRLF),
                Data (''GET / HTTP/1.0'' @ CRLF @ CRLF)],
       selects = [True, True] \<rparr> =
   Some ([IncActive, Send (response_of plain_env 0 (index_cycle ''HTTP/1.1'' None)), Select 10,
          Send (response_of plain_env 1 (index_cycle ''HTTP/1.0'' None)), DecActive, Close],
         \<lparr> active = 0, stops = [], recvs = [Data (''GET / HTTP/1.0'' @ CRLF @ CRLF)],
           selects = [True] \<rparr>)"
proof -
  let ?init = "\<lparr> active = 0, stops = [False, False, False, False, False],
       recvs = [Data (''GET / HTTP/1.1'' @ CRLF @ ''Host: x'' @ CRLF @ CRLF),
                Data (''GET / HTTP/1.0'' @ CRLF @ CRLF),
                Data (''GET / HTTP/1.0'' @ CRLF @ CRLF)],
       selects = [True, True] \<rparr>"
  let ?top = "\<lparr> active = 1, stops = [False, False, False, False, False],
       recvs = [Data (''GET / HTTP/1.1'' @ CRLF @ ''Host: x'' @ CRLF @ CRLF),
                Data (''GET / HTTP/1.0'' @ CRLF @ CRLF),
                Data (''GET / HTTP/1.0'' @ CRLF @ CRLF)],
       selects = [True, True] \<rparr>"
  let ?wa = "\<lparr> active = 1, stops = [False, False, False],
       recvs = [Data (''GET / HTTP/1.0'' @ CRLF @ CRLF),
                Data (''GET / HTTP/1.0'' @ CRLF @ CRLF)],
       selects = [True, True] \<rparr>"
  let ?wb = "\<lparr> active = 1, stops = [False, False],
       recvs = [Data (''GET / HTTP/1.0'' @ CRLF @ CRLF),
                Data (''GET / HTTP/1.0'' @ CRLF @ CRLF)],
       selects = [True] \<rparr>"
  let ?wc = "\<lparr> active = 1, stops = [],
       recvs = [Data (''GET / HTTP/1.0'' @ CRLF @ CRLF)], selects = [True] \<rparr>"
  let ?ra = "response_of plain_env 0 (index_cycle ''HTTP/1.1'' None)"
  let ?rb = "response_of plain_env (Suc 0) (index_cycle ''HTTP/1.0'' None)"
  have s1: "stops ?top = False # [False, False, False, False]" by simp
  have t1: "handler_try plain_env (?top\<lparr>stops := [False, False, False, False]\<rparr>) =
      Some (Completed (index_cycle ''HTTP/1.1'' None), ?wa)"
    by code_simp
  have s2: "stops ?wb = False # [False]" by simp
  have t2: "handler_try plain_env (?wb\<lparr>stops := [False]\<rparr>) =
      Some (Completed (index_cycle ''HTTP/1.0'' None), ?wc)"
    by code_simp
  have second: "handler_loop plain_env (Suc 0) ?wb = Some ([Send ?rb], ?wc)"
    using persistence_decision [OF s2 t2, where k = "Suc 0", THEN conjunct1]
    by (simp add: index_cycle_def)
  have "handler_loop plain_env 0 ?top =
      (case handler_loop plain_env (Suc 0) ?wb of
         None \<Rightarrow> None
       | Some (tr, w3) \<Rightarrow>
           Some ([Send (response_of plain_env 0 (index_cycle ''HTTP/1.1'' None)), Select 10]
                   @ tr, w3))"
    unfolding index_cycle_def
    using persistence_decision [OF s1 t1, where stopped = False and ss' = "[False, False]"
        and ready = True and rest = "[True]" and k = 0, THEN conjunct2, THEN conjunct1]
    by (simp add: index_cycle_def keepalive_timeout_def)
  with second have loop: "handler_loop plain_env 0 ?top = Some ([Send ?ra, Select 10, Send ?rb], ?wc)"
    by simp
  have inc: "?init\<lparr>active := inc_active (active ?init)\<rparr> = ?top" by (simp add: inc_active_def)
  have p0: "handler_prefix plain_env 0 (?init\<lparr>active := inc_active (active ?init)\<rparr>) = Some ([], ?top)"
    by (simp add: inc_active_def)
  have p1: "handler_prefix plain_env (Suc 0) (?init\<lparr>active := inc_active (active ?init)\<rparr>) =
      Some ([] @ [Send ?ra, Select 10], ?wb)"
    using persistence_decision [OF s1 t1, where stopped = False and ss' = "[False, False]"
        and ready = True and rest = "[True]" and k = 0 and ?w0.0 = ?init and pre = "[]",
        THEN conjunct2, THEN conjunct2, THEN conjunct2] p0
    by (simp add: index_cycle_def keepalive_timeout_def Let_def)
  have "handler plain_env ?init =
      Some (IncActive # ([] @ [Send ?ra, Select 10]) @ [Send ?rb, DecActive, Close],
            ?wc\<lparr>active := dec_active (active ?wc)\<rparr>)"
    using persistence_decision [OF s2 t2, where k = "Suc 0" and ?w0.0 = ?init
        and pre = "[] @ [Send ?ra, Select 10]", THEN conjunct2, THEN conjunct2, THEN conjunct2] p1
    by (simp add: index_cycle_def)
  with loop show ?thesis by (simp add: dec_active_def)
qed

lemma scan_headers_no_host:
  "text_of ''host'' \<notin> set (header_keys env ls) \<Longrightarrow>
   fst (scan_headers env host conn ls) = host"
proof (induction ls arbitrary: conn)
  case Nil
  then show ?case by simp
next
  case (Cons l ls)
  show ?case
  proof (cases "py_strip l = []")
    case True
    then show ?thesis by simp
  next
    case False
    with Cons.prems have rest: "text_of ''host'' \<notin> set (header_keys env ls)"
      by (auto simp: header_keys_def)
    show ?thesis
    proof (cases "58 \<in> set l")
      case True
      with False Cons.prems
      have "str_lower env (py_strip (takeWhile (\<lambda>c. c \<noteq> 58) l)) \<noteq> text_of ''host''"
        by (auto simp: header_keys_def)
      with True False Cons.IH [OF rest] show ?thesis
        by (simp add: py_partition_def Let_def)
    next
      case no_colon: False
      with False Cons.IH [OF rest] show ?thesis
        by (simp add: py_partition_def)
    qed
  qed
qed

lemma cons_first_not_Nil: "cons_first c ws \<noteq> []"
  by (cases ws) simp_all

lemma text_split_crlf_not_Nil: "text_split_crlf s \<noteq> []"
  by (induction s rule: text_split_crlf.induct) (simp_all add: cons_first_not_Nil)

text \<open>
  Claim C4, as the code has it.  Let the decoded text have a request line of three
  fields whose third is \<open>HTTP/1.1\<close>, and no header named \<open>Host\<close> before the first
  blank line.  Then \<open>parse_request\<close> raises \<open>ValueError\<close>: with the message
  \<open>HTTP/1.1 with missing Host header\<close> when the method is \<open>GET\<close> or \<open>HEAD\<close>, and with
  \<open><method> is not supported\<close> for any other method, which is checked first.  In
  both cases the handler answers 400 and leaves the loop, whatever the URI and
  whatever the file system holds.
\<close>

theorem missing_host_is_bad_request:
  assumes "py_split (hd (text_split_crlf (decode_utf8 env raw))) = [m, u, text_of ''HTTP/1.1'']"
    and "text_of ''host'' \<notin> set (header_keys env (tl (text_split_crlf (decode_utf8 env raw))))"
    and "stops w = False # ss"
    and "recv_loop ss (recvs w) [] = Some (Inr (Some raw), ss', rs')"
  shows "parse_text env raw =
           Inl (ValueError (if m = text_of ''GET'' \<or> m = text_of ''HEAD''
                            then ''HTTP/1.1 with missing Host header''
                            else encode_utf8 env m @ '' is not supported''))
     \<and> handler_try env (w\<lparr>stops := ss\<rparr>) =
           Some (Completed bad_request, w\<lparr>stops := ss', recvs := rs'\<rparr>)
     \<and> c_status bad_request = BAD_REQUEST
     \<and> handler_loop env k w =
           Some ([Send (response_of env k bad_request)], w\<lparr>stops := ss', recvs := rs'\<rparr>)"
proof -
  let ?lines = "text_split_crlf (decode_utf8 env raw)"
  let ?e = "ValueError (if m = text_of ''GET'' \<or> m = text_of ''HEAD''
                            then ''HTTP/1.1 with missing Host header''
                            else encode_utf8 env m @ '' is not supported'')"
  have ne: "\<not> length ?lines < 1"
    using text_split_crlf_not_Nil [of "decode_utf8 env raw"] by (cases ?lines) simp_all
  obtain h c where sc: "scan_headers env None None (tl ?lines) = (h, c)" by force
  with scan_headers_no_host [OF assms(2), of None None] have h: "h = None" by simp
  have pt: "parse_text env raw = Inl ?e"
    using ne by (simp add: parse_text_def assms(1) sc h text_truthy_def)
  have pr: "parse_request env (w\<lparr>stops := ss\<rparr>) =
          Some (Raised ?e, w\<lparr>stops := ss', recvs := rs'\<rparr>)"
    by (simp add: parse_request_def assms(4) pt)
  have ht: "handler_try env (w\<lparr>stops := ss\<rparr>) =
           Some (Completed bad_request, w\<lparr>stops := ss', recvs := rs'\<rparr>)"
    by (simp add: handler_try_def pr on_error_def bad_request_def)
  from pt ht handler_loop_parse_error [OF assms(3) pr, of k] show ?thesis
    by (simp add: bad_request_def)
qed

text \<open>
  Claim C4 as the specification words it fails for a method other than \<open>GET\<close> and
  \<open>HEAD\<close>: a \<open>POST\<close> request with version \<open>HTTP/1.1\<close> and no \<open>Host\<close> header is
  rejected for its method, not for the missing header.
\<close>

theorem post_without_host_is_unsupported_method:
  "py_split (hd (text_split_crlf
      (decode_utf8 plain_env (''POST / HTTP/1.1'' @ CRLF @ CRLF)))) =
     [text_of ''POST'', text_of ''/'', text_of ''HTTP/1.1'']
   \<and> header_keys plain_env (tl (text_split_crlf
         (decode_utf8 plain_env (''POST / HTTP/1.1'' @ CRLF @ CRLF)))) = []
   \<and> parse_text plain_env (''POST / HTTP/1.1'' @ CRLF @ CRLF) =
       Inl (ValueError ''POST is not supported'')
   \<and> parse_text plain_env (''POST / HTTP/1.1'' @ CRLF @ CRLF) \<noteq>
       Inl (ValueError ''HTTP/1.1 with missing Host header'')"
  by code_simp

theorem missing_host_is_bad_request_witness:
  "parse_text plain_env (''GET /nothing HTTP/1.1'' @ CRLF @ ''Accept: */*'' @ CRLF @ CRLF) =
     Inl (ValueError ''HTTP/1.1 with missing Host header'')
   \<and> handler_loop plain_env 0
        \<lparr> active = 1, stops = [False, False, False],
          recvs = [Data (''GET /nothing HTTP/1.1'' @ CRLF @ ''Accept: */*'' @ CRLF @ CRLF)],
          selects = [True] \<rparr> =
       Some ([Send (response_of plain_env 0 bad_request)],
             \<lparr> active = 1, stops = [False], recvs = [], selects = [True] \<rparr>)"
proof -
  let ?raw = "''GET /nothing HTTP/1.1'' @ CRLF @ ''Accept: */*'' @ CRLF @ CRLF"
  let ?w = "\<lparr> active = 1, stops = [False, False, False], recvs = [Data ?raw],
             selects = [True] \<rparr>"
  have 1: "py_split (hd (text_split_crlf (decode_utf8 plain_env ?raw))) =
             [text_of ''GET'', text_of ''/nothing'', text_of ''HTTP/1.1'']" by code_simp
  have 2: "text_of ''host'' \<notin>
             set (header_keys plain_env (tl (text_split_crlf (decode_utf8 plain_env ?raw))))"
    by code_simp
  have 3: "stops ?w = False # [False, False]" by simp
  have 4: "recv_loop [False, False] (recvs ?w) [] = Some (Inr (Some ?raw), [False], [])"
    by code_simp
  have g: "text_of ''GET'' = text_of ''GET'' \<or> text_of ''GET'' = text_of ''HEAD''" by simp
  from missing_host_is_bad_request [OF 1 2 3 4, of 0] g show ?thesis by simp
qed

text \<open>
  A header name followed by a space that is not ASCII is still the header: with
  U+2003 (code point 8195) between \<open>Host\<close> and the colon, the request is parsed and
  its host is \<open>x\<close>.
\<close>

lemma host_header_before_unicode_space:
  "parse_text
     (plain_env\<lparr>decode_utf8 := (\<lambda>b. text_of ''GET / HTTP/1.1'' @ [13, 10]
        @ text_of ''Host'' @ [8195] @ text_of '': x'' @ [13, 10, 13, 10])\<rparr>) raw =
   Inr \<lparr> req_method = ''GET'', req_uri = ''/'', req_version = ''HTTP/1.1'',
         req_host = Some ''x'', req_connection = None \<rparr>"
  by code_simp

section \<open>Properties of the path resolver\<close>

lemma cons_first_set:
  "ws \<noteq> [] \<Longrightarrow> (\<forall>w \<in> set ws. s \<notin> set w) \<Longrightarrow> c \<noteq> s \<Longrightarrow>
   \<forall>w \<in> set (cons_first c ws). s \<notin> set w"
  by (cases ws) auto

lemma split_char_not_Nil: "split_char s p \<noteq> []"
  by (induction p) (simp_all add: cons_first_not_Nil)

lemma split_char_no_sep: "\<forall>w \<in> set (split_char s p). s \<notin> set w"
proof (induction p)
  case Nil
  then show ?case by simp
next
  case (Cons c p)
  show ?case
  proof (cases "c = s")
    case True
    with Cons show ?thesis by simp
  next
    case False
    with cons_first_set [OF split_char_not_Nil Cons False] show ?thesis by simp
  qed
qed

lemma split_char_append:
  "s \<notin> set x \<Longrightarrow> split_char s (x @ s # rest) = x # split_char s rest"
  by (induction x) auto

lemma split_char_plain: "s \<notin> set x \<Longrightarrow> split_char s x = [x]"
  by (induction x) auto

lemma split_char_join:
  "cs \<noteq> [] \<Longrightarrow> \<forall>c \<in> set cs. s \<notin> set c \<Longrightarrow> split_char s (join_sep [s] cs) = cs"
proof (induction cs rule: induct_list012)
  case 1
  then show ?case by simp
next
  case (2 x)
  then show ?case by (simp add: split_char_plain)
next
  case (3 x y ys)
  then show ?case by (simp add: split_char_append)
qed

lemma path_parts_props:
  "c \<in> set (path_parts p) \<Longrightarrow> c \<noteq> [] \<and> c \<noteq> ''.'' \<and> CHR ''/'' \<notin> set c"
  using split_char_no_sep [of "CHR ''/''" p] by (auto simp: path_parts_def)

lemma path_parts_join:
  assumes "\<forall>c \<in> set cs. c \<noteq> [] \<and> c \<noteq> ''.'' \<and> CHR ''/'' \<notin> set c"
  shows "path_parts (''/'' @ join_sep ''/'' cs) = cs"
proof (cases cs)
  case Nil
  then show ?thesis by (simp add: path_parts_def)
next
  case (Cons a list)
  then have "split_char (CHR ''/'') (join_sep ''/'' cs) = cs"
    using assms by (intro split_char_join) auto
  then show ?thesis
    using assms by (auto simp: path_parts_def filter_id_conv)
qed

lemma common_prefix_prefix:
  "common_prefix s1 s2 = Some c \<Longrightarrow> prefix c s1 \<and> prefix c s2"
  by (induction s1 s2 arbitrary: c rule: common_prefix.induct) (auto split: if_splits)

lemma common_prefix_le: "s1 \<le> s2 \<Longrightarrow> \<exists>c. common_prefix s1 s2 = Some c"
  by (induction s1 s2 rule: common_prefix.induct) auto


lemma normpath_absolute: "startswith p ''/'' \<Longrightarrow> take 1 (normpath p) = ''/''"
  by (cases p) (auto simp: normpath_def Let_def startswith_def)

lemma path_join_absolute: "startswith a ''/'' \<Longrightarrow> startswith (path_join a b) ''/''"
  by (cases a) (auto simp: path_join_def startswith_def)

lemma candidate_absolute:
  "startswith (root_dir env) ''/'' \<Longrightarrow> take 1 (candidate env uri) = ''/''"
proof -
  assume r: "startswith (root_dir env) ''/''"
  let ?p = "path_join (root_dir env) (dropWhile (\<lambda>c. c = CHR ''/'') uri)"
  have a: "startswith ?p ''/''" using r by (rule path_join_absolute)
  then have "abspath (getcwd env) ?p = normpath ?p" by (simp add: abspath_def)
  with normpath_absolute [OF a] show ?thesis by (simp add: candidate_def)
qed

lemma commonpath_root:
  assumes "take 1 a = ''/''" and "take 1 b = ''/''"
  shows "\<exists>cp. commonpath a b = Inr cp \<and> (cp = a \<longrightarrow> inside a b)"
proof -
  let ?s1 = "min (path_parts a) (path_parts b)" and ?s2 = "max (path_parts a) (path_parts b)"
  have "?s1 \<le> ?s2" by (meson min.cobounded1 max.cobounded1 order_trans)
  from common_prefix_le [OF this] obtain c where c: "common_prefix ?s1 ?s2 = Some c" by blast
  from common_prefix_prefix [OF c] have p1: "prefix c ?s1" and p2: "prefix c ?s2" by simp_all
  have cp: "commonpath a b = Inr (''/'' @ join_sep ''/'' c)"
    using assms c by (simp add: commonpath_def Let_def)
  have both: "prefix c (path_parts a)" "prefix c (path_parts b)"
    using p1 p2 by (auto simp: min_def max_def split: if_splits)
  have "set c \<subseteq> set (path_parts a)" using both(1) by (auto dest: set_mono_prefix)
  then have parts: "\<forall>x \<in> set c. x \<noteq> [] \<and> x \<noteq> ''.'' \<and> CHR ''/'' \<notin> set x"
    using path_parts_props by blast
  have "inside a b" if "''/'' @ join_sep ''/'' c = a"
  proof -
    from path_parts_join [OF parts] that have "path_parts a = c" by simp
    with both(2) show ?thesis by (simp add: inside_def)
  qed
  with cp show ?thesis by auto
qed

text \<open>
  Claim C1, as the code has it.  For an absolute document root and every URI, when
  the candidate path of line 138 (the root joined with the URI without its leading
  slashes, normalised by \<open>abspath\<close>, which removes \<open>.\<close>, \<open>..\<close> and repeated slashes
  from the text and follows no symbolic link) does not lie inside the root,
  \<open>get_file\<close> raises \<open>PermissionError\<close> for the traversal and returns no path.  The
  test is made on the components of the normalised path, not on the raw URI.
\<close>

theorem outside_root_is_forbidden:
  assumes "startswith (root_dir env) ''/''"
    and "\<not> inside (root_dir env) (candidate env (if uri = ''/'' then ''/index.html'' else uri))"
  shows "get_file env uri = Inl (PermissionError ''Forbidden: out of bounds traversal'')"
proof -
  let ?u = "if uri = ''/'' then ''/index.html'' else uri"
  have r: "take 1 (root_dir env) = ''/''"
    using assms(1) by (cases "root_dir env") (auto simp: startswith_def)
  from commonpath_root [OF r candidate_absolute [OF assms(1), of ?u]] obtain cp where
    cp: "commonpath (root_dir env) (candidate env ?u) = Inr cp"
    and "cp = root_dir env \<longrightarrow> inside (root_dir env) (candidate env ?u)" by blast
  with assms(2) have "cp \<noteq> root_dir env" by blast
  with cp show ?thesis by (simp add: get_file_def Let_def)
qed


text \<open>
  Claim C1 as the specification words it fails for an escape through a symbolic link.
  Let \<open>/srv/www/out\<close> be a link to \<open>/etc\<close>.  The resolved path of \<open>/out/passwd\<close> is
  \<open>/etc/passwd\<close>, outside the root \<open>/srv/www\<close>, yet \<open>get_file\<close> returns the path
  \<open>/srv/www/out/passwd\<close> and the handler's \<open>try\<close> block answers 200 with the bytes of
  the file.
\<close>

theorem symlink_escape_is_served:
  "spec_candidate symlink_realpath symlink_env ''/out/passwd'' = ''/etc/passwd''
   \<and> \<not> inside (root_dir symlink_env)
          (spec_candidate symlink_realpath symlink_env ''/out/passwd'')
   \<and> get_file symlink_env ''/out/passwd'' = Inr ''/srv/www/out/passwd''
   \<and> serve symlink_env
         \<lparr> req_method = ''GET'', req_uri = ''/out/passwd'', req_version = ''HTTP/1.0'',
           req_host = None, req_connection = None \<rparr> =
       Completed \<lparr> c_version = ''HTTP/1.0'', c_connection = None, c_body = ''root:x:0:0:'',
                   c_content_type = ''application/octet-stream'', c_status = OK \<rparr>"
  by code_simp

theorem outside_root_is_forbidden_witness:
  "candidate plain_env ''/../../etc/passwd'' = ''/etc/passwd''
   \<and> get_file plain_env ''/../../etc/passwd'' =
       Inl (PermissionError ''Forbidden: out of bounds traversal'')
   \<and> candidate plain_env ''/a/../../wwwx/index.html'' = ''/srv/wwwx/index.html''
   \<and> get_file plain_env ''/a/../../wwwx/index.html'' =
       Inl (PermissionError ''Forbidden: out of bounds traversal'')"
proof -
  have r: "startswith (root_dir plain_env) ''/''" by code_simp
  have c1: "candidate plain_env ''/../../etc/passwd'' = ''/etc/passwd''" by code_simp
  have o1: "\<not> inside (root_dir plain_env)
      (candidate plain_env
         (if ''/../../etc/passwd'' = ''/'' then ''/index.html'' else ''/../../etc/passwd''))"
    by code_simp
  have c2: "candidate plain_env ''/a/../../wwwx/index.html'' = ''/srv/wwwx/index.html''"
    by code_simp
  have o2: "\<not> inside (root_dir plain_env)
      (candidate plain_env
         (if ''/a/../../wwwx/index.html'' = ''/'' then ''/index.html''
          else ''/a/../../wwwx/index.html''))"
    by code_simp
  from c1 c2 outside_root_is_forbidden [OF r o1] outside_root_is_forbidden [OF r o2]
  show ?thesis by simp
qed

section \<open>The activity counter across handlers\<close>

lemma parse_request_active:
  "parse_request env w = Some (r, w') \<Longrightarrow> active w' = active w"
  by (auto simp: parse_request_def split: option.splits)

lemma handler_try_active:
  "handler_try env w = Some (r, w') \<Longrightarrow> active w' = active w"
  by (auto simp: handler_try_def split: option.splits parse_result.splits
           dest: parse_request_active)

lemma handler_iter_active:
  "handler_iter env k w = Some (Exit tr w') \<or> handler_iter env k w = Some (Again tr w') \<Longrightarrow>
   active w' = active w"
  by (auto simp: handler_iter_def Let_def
           split: list.splits if_splits option.splits try_result.splits
           dest!: handler_try_active)

lemma handler_loop_active:
  "handler_loop env k w = Some (tr, w') \<Longrightarrow> active w' = active w"
proof (induction env k w arbitrary: tr w' rule: handler_loop.induct)
  case (1 env k w)
  show ?case
  proof (cases "handler_iter env k w")
    case None
    with "1.prems" show ?thesis by (simp add: handler_loop.simps [of env k w])
  next
    case (Some it)
    show ?thesis
    proof (cases it)
      case (Exit tr0 w0)
      with Some "1.prems" have "w' = w0" by (simp add: handler_loop.simps [of env k w])
      with Some Exit handler_iter_active [of env k w tr0 w0] show ?thesis by simp
    next
      case (Again tr0 w0)
      with Some "1.prems" obtain tr1 where "handler_loop env (Suc k) w0 = Some (tr1, w')"
        by (auto simp: handler_loop.simps [of env k w] split: option.splits)
      from "1.IH" [OF Some Again this] Some Again handler_iter_active [of env k w tr0 w0]
      show ?thesis by simp
    qed
  qed
qed

lemma handler_active:
  "handler env w = Some (tr, w') \<Longrightarrow> active w' = dec_active (inc_active (active w))"
  by (auto simp: handler_def split: option.splits dest: handler_loop_active)

lemma interleaved_all:
  "interleaved es \<Longrightarrow> prefix (events_of i es) [Start i, End i]"
proof (cases "i \<in> event_handler ` set es")
  case True
  assume "interleaved es"
  with True show ?thesis by (auto simp: interleaved_def list_all_iff)
next
  case False
  then have "events_of i es = []" by (auto simp: events_of_def filter_empty_conv)
  then show ?thesis by simp
qed

lemma prefix_pair_distinct: "prefix xs [Start i, End i] \<Longrightarrow> distinct xs"
  by (auto simp: prefix_Cons split: list.splits)

lemma handler_order_interleaved:
  "(\<And>i. prefix (events_of i (rev seen @ es)) [Start i, End i]) \<Longrightarrow> handler_order seen es"
proof (induction es arbitrary: seen)
  case Nil
  then show ?case by simp
next
  case (Cons e es)
  let ?i = "event_handler e"
  have pre: "prefix (events_of ?i (rev seen) @ e # events_of ?i es) [Start ?i, End ?i]"
    using Cons.prems [of ?i] by (simp add: events_of_def)
  have new: "e \<notin> set seen"
  proof
    assume "e \<in> set seen"
    then have "e \<in> set (events_of ?i (rev seen))" by (simp add: events_of_def)
    moreover have "distinct (events_of ?i (rev seen) @ e # events_of ?i es)"
      using pre by (rule prefix_pair_distinct)
    ultimately show False by simp
  qed
  have started: "Start i \<in> set seen" if "e = End i" for i
  proof -
    from that have i: "?i = i" by simp
    show ?thesis
    proof (cases "events_of i (rev seen)")
      case Nil
      with pre that i show ?thesis by simp
    next
      case (Cons x xs)
      with pre i have "x = Start i" by simp
      with Cons have "Start i \<in> set (events_of i (rev seen))" by simp
      then show ?thesis by (simp add: events_of_def)
    qed
  qed
  have "handler_order (e # seen) es"
    by (rule Cons.IH) (use Cons.prems in simp)
  with new started show ?case by (cases e) auto
qed

lemma interleaved_order: "interleaved es \<Longrightarrow> handler_order [] es"
  by (rule handler_order_interleaved) (simp add: interleaved_all)

lemma handler_iter_no_counter:
  "handler_iter env k w = Some (Exit tr w') \<or> handler_iter env k w = Some (Again tr w') \<Longrightarrow>
   counter_events i tr = []"
  by (auto simp: handler_iter_def Let_def
           split: list.splits if_splits option.splits try_result.splits)

lemma counter_events_append:
  "counter_events i (xs @ ys) = counter_events i xs @ counter_events i ys"
  by (induction i xs rule: counter_events.induct) simp_all

lemma handler_loop_no_counter:
  "handler_loop env k w = Some (tr, w') \<Longrightarrow> counter_events i tr = []"
proof (induction env k w arbitrary: tr w' rule: handler_loop.induct)
  case (1 env k w)
  show ?case
  proof (cases "handler_iter env k w")
    case None
    with "1.prems" show ?thesis by (simp add: handler_loop.simps [of env k w])
  next
    case (Some it)
    show ?thesis
    proof (cases it)
      case (Exit tr0 w0)
      with Some "1.prems" have "tr = tr0" by (simp add: handler_loop.simps [of env k w])
      with Some Exit handler_iter_no_counter [of env k w tr0 w0 i] show ?thesis by simp
    next
      case (Again tr0 w0)
      with Some "1.prems" obtain tr1 where l: "handler_loop env (Suc k) w0 = Some (tr1, w')"
        and tr: "tr = tr0 @ tr1"
        by (auto simp: handler_loop.simps [of env k w] split: option.splits)
      from "1.IH" [OF Some Again l] Some Again handler_iter_no_counter [of env k w tr0 w0 i]
      show ?thesis by (simp add: tr counter_events_append)
    qed
  qed
qed

lemma handler_counter_events:
  assumes "handler env w = Some (tr, w')"
  shows "counter_events i tr = [Start i, End i]"
    and "\<exists>tr0 w1. handler_loop env 0 (w\<lparr>active := active w + 1\<rparr>) = Some (tr0, w1)
           \<and> active w1 = active w + 1 \<and> tr = IncActive # tr0 @ [DecActive, Close]
           \<and> active w' = max 0 (active w1 - 1)"
proof -
  from assms obtain tr0 w1 where
    l: "handler_loop env 0 (w\<lparr>active := inc_active (active w)\<rparr>) = Some (tr0, w1)"
    and tr: "tr = IncActive # tr0 @ [DecActive, Close]"
    and w': "w' = w1\<lparr>active := dec_active (active w1)\<rparr>"
    by (auto simp: handler_def split: option.splits)
  from handler_loop_no_counter [OF l, of i] show "counter_events i tr = [Start i, End i]"
    by (simp add: tr counter_events_append)
  from handler_loop_active [OF l] have "active w1 = active w + 1" by (simp add: inc_active_def)
  with l tr w' show "\<exists>tr0 w1. handler_loop env 0 (w\<lparr>active := active w + 1\<rparr>) = Some (tr0, w1)
           \<and> active w1 = active w + 1 \<and> tr = IncActive # tr0 @ [DecActive, Close]
           \<and> active w' = max 0 (active w1 - 1)"
    by (auto simp: inc_active_def dec_active_def)
qed

text \<open>
  Claim C6.  Starting from \<open>_active = 0\<close>, the counter is never negative after any
  sequence of increments and decrements; and after any sequence of handler start and
  end events in which every handler starts at most once and ends at most once, after
  its start, the counter equals the number of handlers that have started and not yet
  ended.  In particular it is 0 again once every started handler has ended.  Every
  run of \<open>handler\<close> that returns calls \<open>inc_active\<close> first, runs its loop with the
  counter one higher and unchanged by the loop, and calls \<open>dec_active\<close> once, before
  \<open>close\<close>: its counter events are \<open>Start i, End i\<close>.  Every interleaving of such runs,
  finished or not, is a sequence of the kind above, so the counter is exact for it.
\<close>

theorem activity_counter_exact:
  "0 \<le> run_events 0 es
   \<and> (handler_order [] es \<longrightarrow>
        run_events 0 es = int (length (running es))
        \<and> (running es = [] \<longrightarrow> run_events 0 es = 0))
   \<and> (handler env w = Some (tr, w') \<longrightarrow>
        active w' = dec_active (inc_active (active w))
        \<and> counter_events i tr = [Start i, End i]
        \<and> (\<exists>tr0 w1. handler_loop env 0 (w\<lparr>active := active w + 1\<rparr>) = Some (tr0, w1)
               \<and> active w1 = active w + 1 \<and> tr = IncActive # tr0 @ [DecActive, Close]
               \<and> active w' = max 0 (active w1 - 1)))
   \<and> (interleaved es \<longrightarrow>
        handler_order [] es \<and> run_events 0 es = int (length (running es)))"
proof -
  have nonneg: "0 \<le> run_events 0 es" by (simp add: run_events_nonneg)
  have exact: "run_events 0 es = int (length (running es))" if ord: "handler_order [] es"
  proof -
    have "distinct es" using handler_order_distinct [OF ord] by simp
    then have len: "length (running es) = card (live (set es))" by (rule length_running)
    have "run_events 0 es = int (card (live (set [] \<union> set es)))"
      by (rule run_events_card [OF ord]) (simp_all add: live_def)
    with len show ?thesis by simp
  qed
  have ordered: "handler_order [] es \<longrightarrow>
        run_events 0 es = int (length (running es))
        \<and> (running es = [] \<longrightarrow> run_events 0 es = 0)"
    using exact by simp
  have run: "handler env w = Some (tr, w') \<longrightarrow>
        active w' = dec_active (inc_active (active w))
        \<and> counter_events i tr = [Start i, End i]
        \<and> (\<exists>tr0 w1. handler_loop env 0 (w\<lparr>active := active w + 1\<rparr>) = Some (tr0, w1)
               \<and> active w1 = active w + 1 \<and> tr = IncActive # tr0 @ [DecActive, Close]
               \<and> active w' = max 0 (active w1 - 1))"
    using handler_active [of env w tr w'] handler_counter_events(1) [of env w tr w' i]
      handler_counter_events(2) [of env w tr w'] by (intro impI conjI)
  have inter: "interleaved es \<longrightarrow>
        handler_order [] es \<and> run_events 0 es = int (length (running es))"
    using interleaved_order [of es] exact by blast
  from nonneg ordered run inter show ?thesis by (intro conjI)
qed

theorem activity_counter_exact_witness:
  "handler_order [] [Start 0, Start 1, End 0, Start 2, End 2]
   \<and> interleaved [Start 0, Start 1, End 0, Start 2, End 2]
   \<and> run_events 0 [Start 0, Start 1, End 0, Start 2, End 2] = 1
   \<and> handler_order [] [Start 0, Start 1, End 1, End 0]
   \<and> running [Start 0, Start 1, End 1, End 0] = []
   \<and> run_events 0 [Start 0, Start 1, End 1, End 0] = 0
   \<and> handler plain_env
        \<lparr> active = 3, stops = [False, False],
          recvs = [Data (''GET / HTTP/1.0'' @ CRLF @ CRLF)], selects = [] \<rparr> =
       Some ([IncActive, Send (response_of plain_env 0 (index_cycle ''HTTP/1.0'' None)),
              DecActive, Close],
             \<lparr> active = 3, stops = [], recvs = [], selects = [] \<rparr>)
   \<and> counter_events 7
        [IncActive, Send (response_of plain_env 0 (index_cycle ''HTTP/1.0'' None)),
         DecActive, Close] = [Start 7, End 7]"
proof -
  let ?start = "\<lparr> active = 3, stops = [False, False],
          recvs = [Data (''GET / HTTP/1.0'' @ CRLF @ CRLF)], selects = [] \<rparr>"
  let ?final = "\<lparr> active = 3, stops = [], recvs = [], selects = [] \<rparr>"
  let ?tr = "[IncActive, Send (response_of plain_env 0 (index_cycle ''HTTP/1.0'' None)),
              DecActive, Close]"
  have h: "handler plain_env ?start = Some (?tr, ?final)"
    by code_simp
  have i: "interleaved [Start 0, Start 1, End 0, Start 2, End 2]"
    by (simp add: interleaved_def events_of_def)
  have "active ?final = dec_active (inc_active (active ?start))
        \<and> counter_events 7 ?tr = [Start 7, End 7]"
    using activity_counter_exact [where env = plain_env and w = ?start and w' = ?final
        and tr = ?tr and i = 7] h by blast
  with h i activity_counter_exact [of "[Start 0, Start 1, End 0, Start 2, End 2]"]
    activity_counter_exact [of "[Start 0, Start 1, End 1, End 0]"]
  show ?thesis by (simp add: running_def)
qed

end
